theory Spec2Isabelle
  imports Complex_Main "HOL-Library.Word"
begin

section \<open>Strings\<close>

text \<open>
  A Python \<open>str\<close> is a sequence of Unicode code points: it is modelled as a list of
  natural numbers, so \<open>length\<close> is Python's \<open>len\<close>. \<open>py_str\<close> gives the str of a
  literal whose characters are below U+0100.
\<close>

type_synonym codepoint = nat
type_synonym str = "codepoint list"

definition py_str :: "string \<Rightarrow> str" where
  "py_str s = map of_char s"

text \<open>
  \<open>str.lower\<close>. CPython lower-cases a str position by position: for the character
  at position \<open>i\<close> of \<open>s\<close> its \<open>lower_ucs4\<close> yields one to three code points (it looks
  at the neighbouring characters for the final sigma), and the result is their
  concatenation. So the result is never shorter than \<open>s\<close>, and it is longer where a
  character has a longer lower case, as U+0130 has. The Unicode table is not part of the
  repository: \<open>lower_ucs4\<close> is a parameter, whose value is the first code point and the
  list of the others.
\<close>

type_synonym lower_table = "str \<Rightarrow> nat \<Rightarrow> codepoint \<times> codepoint list"

definition lower :: "lower_table \<Rightarrow> str \<Rightarrow> str" where
  "lower lower_ucs4 s =
     concat (map (\<lambda>i. fst (lower_ucs4 s i) # snd (lower_ucs4 s i)) [0..<length s])"

text \<open>
  The two Unicode tables on the code points U+0000 .. U+00FF and U+0130, where they are
  CPython's: the lower case of A-Z and of the capital letters U+00C0 .. U+00DE (the
  multiplication sign U+00D7 apart) is 32 positions up, the lower case of U+0130 is
  U+0069 U+0307, every other character of the range is its own lower case; the letters
  of the range are those listed. The concrete instances of this theory use these tables
  on strings of that range only.
\<close>

definition latin_lower_ucs4 :: lower_table where
  "latin_lower_ucs4 s i =
     (let c = s ! i
      in if c = 304 then (105, [775])
         else if (65 \<le> c \<and> c \<le> 90) \<or> (192 \<le> c \<and> c \<le> 222 \<and> c \<noteq> 215)
         then (c + 32, []) else (c, []))"

definition latin_alpha :: "codepoint \<Rightarrow> bool" where
  "latin_alpha c =
     ((65 \<le> c \<and> c \<le> 90) \<or> (97 \<le> c \<and> c \<le> 122) \<or> c = 170 \<or> c = 181 \<or> c = 186 \<or>
      (192 \<le> c \<and> c \<le> 214) \<or> (216 \<le> c \<and> c \<le> 246) \<or> (248 \<le> c \<and> c \<le> 255) \<or>
      c = 304)"

section \<open>Levenshtein.py\<close>

text \<open>
  Both matrices are numpy arrays of dtype \<open>uint8\<close>: a cell is an \<open>8 word\<close>. A value
  stored in a cell is reduced modulo 256 (numpy 1.x stores an out-of-range integer by
  truncating it; the sum \<open>minimum + cost\<close> of a \<open>uint8\<close> scalar and a Python integer
  is then stored the same way), so a cost enters the arithmetic as \<open>word_of_int cost\<close>
  and \<open>+\<close> is the addition of \<open>8 word\<close>.
\<close>

type_synonym uint8 = "8 word"
type_synonym matrix = "uint8 list list"

record levenshtein =
  source :: str
  target :: str
  M :: nat
  N :: nat
  replace_cost :: int
  insert_cost :: int
  delete_cost :: int
  distance_matrix :: matrix
  backtrace_matrix :: matrix

definition NO_EDIT :: uint8 where "NO_EDIT = 0"
definition INSERT :: uint8 where "INSERT = 1"
definition DELETE :: uint8 where "DELETE = 2"
definition REPLACE :: uint8 where "REPLACE = 3"

text \<open>\<open>np.zeros(shape=(r, c), dtype=np.uint8)\<close>.\<close>

definition zeros :: "nat \<Rightarrow> nat \<Rightarrow> matrix" where
  "zeros r c = replicate r (replicate c 0)"

text \<open>
  The assignment \<open>m[i][j] = v\<close>. Every assignment of the source is made inside the
  loops' ranges, which are the matrix's own dimensions, so no index is out of range.
\<close>

definition set_cell :: "matrix \<Rightarrow> nat \<Rightarrow> nat \<Rightarrow> uint8 \<Rightarrow> matrix" where
  "set_cell m i j v = m[i := (m ! i)[j := v]]"

text \<open>The bodies of the two initialisation loops of \<open>build_levenshtein\<close>.\<close>

definition init_column :: "nat \<Rightarrow> levenshtein \<Rightarrow> levenshtein" where
  "init_column i L =
     L\<lparr>distance_matrix := set_cell (distance_matrix L) i 0 (of_nat i),
       backtrace_matrix := set_cell (backtrace_matrix L) i 0 DELETE\<rparr>"

definition init_row :: "nat \<Rightarrow> levenshtein \<Rightarrow> levenshtein" where
  "init_row j L =
     L\<lparr>distance_matrix := set_cell (distance_matrix L) 0 j (of_nat j),
       backtrace_matrix := set_cell (backtrace_matrix L) 0 j INSERT\<rparr>"

text \<open>The body of the nested loop, at the cell \<open>(i, j)\<close>.\<close>

definition fill_cell :: "nat \<Rightarrow> nat \<Rightarrow> levenshtein \<Rightarrow> levenshtein" where
  "fill_cell i j L =
     (let D = distance_matrix L; B = backtrace_matrix L
      in if source L ! (i - 1) = target L ! (j - 1) then
           L\<lparr>distance_matrix := set_cell D i j (D ! (i - 1) ! (j - 1)),
             backtrace_matrix := set_cell B i j NO_EDIT\<rparr>
         else
           let minimum = min (D ! i ! (j - 1)) (min (D ! (i - 1) ! j) (D ! (i - 1) ! (j - 1)))
           in if minimum = D ! i ! (j - 1) then
                L\<lparr>distance_matrix := set_cell D i j (minimum + word_of_int (insert_cost L)),
                  backtrace_matrix := set_cell B i j INSERT\<rparr>
              else if minimum = D ! (i - 1) ! j then
                L\<lparr>distance_matrix := set_cell D i j (minimum + word_of_int (delete_cost L)),
                  backtrace_matrix := set_cell B i j DELETE\<rparr>
              else
                L\<lparr>distance_matrix := set_cell D i j (minimum + word_of_int (replace_cost L)),
                  backtrace_matrix := set_cell B i j REPLACE\<rparr>)"

definition fill_row :: "nat \<Rightarrow> levenshtein \<Rightarrow> levenshtein" where
  "fill_row i L = fold (fill_cell i) [1..<N L + 1] L"

definition build_levenshtein :: "levenshtein \<Rightarrow> levenshtein" where
  "build_levenshtein L =
     (let L1 = fold init_column [0..<M L + 1] L;
          L2 = fold init_row [0..<N L + 1] L1
      in fold fill_row [1..<M L + 1] L2)"

text \<open>
  The constructor \<open>levenshtein(source, target, replace_cost=1, insert_cost=1,
  delete_cost=1)\<close>, with the parameters in the order of the source, after the table
  \<open>lc\<close> of \<open>str.lower\<close>. \<open>M\<close> and \<open>N\<close> are the lengths of the strings as given,
  \<open>source\<close> and \<open>target\<close> are the lower-cased strings; these are never shorter, so
  every read \<open>source[i-1]\<close>, \<open>target[j-1]\<close> of the loops is in range.
\<close>

definition levenshtein_init ::
  "lower_table \<Rightarrow> str \<Rightarrow> str \<Rightarrow> int \<Rightarrow> int \<Rightarrow> int \<Rightarrow> levenshtein" where
  "levenshtein_init lc src tgt rc ic dc =
     build_levenshtein
       \<lparr>source = lower lc src, target = lower lc tgt,
        M = length src, N = length tgt,
        replace_cost = rc, insert_cost = ic, delete_cost = dc,
        distance_matrix = zeros (length src + 1) (length tgt + 1),
        backtrace_matrix = zeros (length src + 1) (length tgt + 1)\<rparr>"

definition get_edit_distance :: "levenshtein \<Rightarrow> uint8" where
  "get_edit_distance L = distance_matrix L ! M L ! N L"


subsection \<open>\<open>operations_history\<close>\<close>

text \<open>
  One dictionary of the returned list. \<open>source_char\<close> and \<open>target_char\<close> hold a pair
  (1-based index, character) or Python's \<open>None\<close>.
\<close>

record operation_record =
  operation :: string
  char_index :: nat
  source_char :: "(nat \<times> codepoint) option"
  target_char :: "(nat \<times> codepoint) option"

datatype py_error = KeyError | NegativeIndex

text \<open>
  The \<open>while i > 0 or j > 0\<close> loop. The indices are natural numbers; a step that would
  take \<open>i\<close> or \<open>j\<close> below zero is the value \<open>Inl NegativeIndex\<close> (Python would go on
  reading the matrix and the strings from their far end). On a constructed engine that
  branch is never taken, see \<open>operations_loop_walk\<close>.
\<close>

fun operations_loop ::
  "levenshtein \<Rightarrow> nat \<Rightarrow> nat \<Rightarrow> operation_record list \<Rightarrow> py_error + operation_record list" where
  "operations_loop L i j operations =
     (if i > 0 \<or> j > 0 then
        let current_operation = backtrace_matrix L ! i ! j
        in if current_operation = INSERT then
             if j = 0 then Inl NegativeIndex
             else operations_loop L i (j - 1)
                    (operations @ [\<lparr>operation = ''inserting'', char_index = j,
                                    source_char = None,
                                    target_char = Some (j, target L ! (j - 1))\<rparr>])
           else if current_operation = DELETE then
             if i = 0 then Inl NegativeIndex
             else operations_loop L (i - 1) j
                    (operations @ [\<lparr>operation = ''deleting'', char_index = i,
                                    source_char = Some (i, source L ! (i - 1)),
                                    target_char = None\<rparr>])
           else if current_operation = REPLACE then
             if i = 0 \<or> j = 0 then Inl NegativeIndex
             else operations_loop L (i - 1) (j - 1)
                    (operations @ [\<lparr>operation = ''replacing'', char_index = i,
                                    source_char = Some (i, source L ! (i - 1)),
                                    target_char = Some (j, target L ! (j - 1))\<rparr>])
           else
             if i = 0 \<or> j = 0 then Inl NegativeIndex
             else operations_loop L (i - 1) (j - 1)
                    (operations @ [\<lparr>operation = ''no_edit'', char_index = i,
                                    source_char = Some (i, source L ! (i - 1)),
                                    target_char = Some (j, target L ! (j - 1))\<rparr>])
      else Inr operations)"

text \<open>\<open>operations_history\<close> returns \<open>operations[::-1]\<close>.\<close>

definition operations_history :: "levenshtein \<Rightarrow> py_error + operation_record list" where
  "operations_history L =
     (case operations_loop L (M L) (N L) [] of
        Inl e \<Rightarrow> Inl e
      | Inr operations \<Rightarrow> Inr (rev operations))"

subsection \<open>Applying an operation history\<close>

text \<open>
  What it means to apply the records to a string, left to right. The state is the text
  produced so far and the part of the source not yet read. An \<open>inserting\<close> record puts
  its target character; a \<open>deleting\<close> record drops the next source character, which
  must be the one the record names; a \<open>replacing\<close> record drops it and puts the target
  character; a \<open>no_edit\<close> record copies it. A record that does not fit is \<open>None\<close>.
\<close>

fun apply_record :: "operation_record \<Rightarrow> str \<times> str \<Rightarrow> (str \<times> str) option" where
  "apply_record r (out, rest) =
     (if operation r = ''inserting'' then
        (case target_char r of
           Some (_, c) \<Rightarrow> Some (out @ [c], rest)
         | None \<Rightarrow> None)
      else if operation r = ''deleting'' then
        (case (source_char r, rest) of
           (Some (_, x), y # ys) \<Rightarrow> if x = y then Some (out, ys) else None
         | _ \<Rightarrow> None)
      else if operation r = ''replacing'' then
        (case (source_char r, target_char r, rest) of
           (Some (_, x), Some (_, c), y # ys) \<Rightarrow> if x = y then Some (out @ [c], ys) else None
         | _ \<Rightarrow> None)
      else if operation r = ''no_edit'' then
        (case (source_char r, rest) of
           (Some (_, x), y # ys) \<Rightarrow> if x = y then Some (out @ [y], ys) else None
         | _ \<Rightarrow> None)
      else None)"

fun apply_records :: "operation_record list \<Rightarrow> str \<times> str \<Rightarrow> (str \<times> str) option" where
  "apply_records [] st = Some st"
| "apply_records (r # rs) st =
     (case apply_record r st of None \<Rightarrow> None | Some st' \<Rightarrow> apply_records rs st')"

definition apply_operations :: "operation_record list \<Rightarrow> str \<Rightarrow> str option" where
  "apply_operations rs src =
     (case apply_records rs ([], src) of
        None \<Rightarrow> None
      | Some (out, rest) \<Rightarrow> Some (out @ rest))"

section \<open>SpellingCorrector.py\<close>

text \<open>
  \<open>str.isalpha\<close>: the str is not empty and every character is a letter. Which
  code points are letters is Unicode's table, the parameter \<open>alpha\<close>.
\<close>

definition isalpha :: "(codepoint \<Rightarrow> bool) \<Rightarrow> str \<Rightarrow> bool" where
  "isalpha alpha s = (s \<noteq> [] \<and> list_all alpha s)"

text \<open>\<open>sep.join(xs)\<close>.\<close>

fun join :: "str \<Rightarrow> str list \<Rightarrow> str" where
  "join sep [] = []"
| "join sep [x] = x"
| "join sep (x # y # ys) = x @ sep @ join sep (y # ys)"

text \<open>
  \<open>s.replace(old, new)\<close>: every occurrence of \<open>old\<close>, found from the left and not
  overlapping, becomes \<open>new\<close>; an empty \<open>old\<close> matches before every character and at
  the end.
\<close>

function (sequential) replace :: "str \<Rightarrow> str \<Rightarrow> str \<Rightarrow> str" where
  "replace s [] new = new @ concat (map (\<lambda>c. c # new) s)"
| "replace [] old new = []"
| "replace (c # cs) old new =
     (if take (length old) (c # cs) = old
      then new @ replace (drop (length old) (c # cs)) old new
      else c # replace cs old new)"
  by pat_completeness auto
termination
  by (relation "measure (\<lambda>(s, old, new). length s)") auto

text \<open>
  One dictionary of \<open>misspelled_words\<close>. The key \<open>best_candidates\<close> is absent (\<open>None\<close>)
  until \<open>__best_candidate__\<close> sets it. A probability is a Python float; it is modelled
  as a real number, and the theorems on \<open>best_candidates\<close> speak of the stored list
  of probabilities, whatever its values are.
\<close>

record misspelled_word =
  misspelled :: str
  candidates :: "str list"
  probabilities :: "real list"
  best_candidates :: "str option"

text \<open>
  The corrector after \<open>__find_misspelled__\<close>: \<open>string\<close> is the list of lower-cased
  tokens.
\<close>

record SpellCorrector =
  string :: "str list"
  vocabulary :: "str list"
  n_edit :: int
  misspelled_words :: "misspelled_word list"

text \<open>
  \<open>__find_misspelled__\<close>. NLTK's \<open>word_tokenize\<close> is not part of the repository: it
  is the parameter \<open>word_tokenize\<close>.
\<close>

definition find_misspelled ::
  "lower_table \<Rightarrow> (codepoint \<Rightarrow> bool) \<Rightarrow> (str \<Rightarrow> str list) \<Rightarrow> str \<Rightarrow>
   SpellCorrector \<Rightarrow> SpellCorrector" where
  "find_misspelled lc alpha word_tokenize text C =
     (let tokens = map (lower lc) (word_tokenize text)
      in C\<lparr>string := tokens,
           misspelled_words :=
             fold (\<lambda>word ms.
                     if isalpha alpha word then
                       if word \<notin> set (vocabulary C) then
                         ms @ [\<lparr>misspelled = word, candidates = [], probabilities = [],
                                best_candidates = None\<rparr>]
                       else ms
                     else ms)
                  tokens (misspelled_words C)\<rparr>)"

text \<open>
  \<open>__find_candidates__\<close>: the comparison \<open>get_edit_distance() <= self.n_edit\<close> is
  between the value of the \<open>uint8\<close> cell and a Python integer.
\<close>

definition find_candidates :: "lower_table \<Rightarrow> SpellCorrector \<Rightarrow> SpellCorrector" where
  "find_candidates lc C =
     C\<lparr>misspelled_words :=
         map (\<lambda>e. fold (\<lambda>word e.
                           if uint (get_edit_distance (levenshtein_init lc (misspelled e) word 2 1 1))
                                \<le> n_edit C
                           then e\<lparr>candidates := candidates e @ [word]\<rparr>
                           else e)
                        (vocabulary C) e)
             (misspelled_words C)\<rparr>"

text \<open>
  The probability of one candidate, from its frequency in the vocabulary and its
  distance: \<open>(candidate_frequency * (1 / (n_edit + 1))) ** 0.5\<close>, where \<open>n_edit + 1\<close>
  is computed on the value of the cell (numpy 1.x promotes the sum to a 64-bit integer).
\<close>

definition candidate_probability :: "nat \<Rightarrow> uint8 \<Rightarrow> real" where
  "candidate_probability candidate_frequency d =
     sqrt (real candidate_frequency * (1 / (real (unat d) + 1)))"

definition compute_probabilities :: "lower_table \<Rightarrow> SpellCorrector \<Rightarrow> SpellCorrector" where
  "compute_probabilities lc C =
     C\<lparr>misspelled_words :=
         map (\<lambda>e. fold (\<lambda>candidate e.
                           e\<lparr>probabilities := probabilities e @
                               [candidate_probability (count_list (vocabulary C) candidate)
                                  (get_edit_distance
                                     (levenshtein_init lc (misspelled e) candidate (n_edit C) 1 1))]\<rparr>)
                        (candidates e) (e\<lparr>probabilities := []\<rparr>))
             (misspelled_words C)\<rparr>"

text \<open>
  The inner loop of \<open>__best_candidate__\<close> over \<open>zip(candidates, probabilities)\<close>; the
  state is \<open>(best_probability, best_candidate)\<close>, initially \<open>(-1, "")\<close>.
\<close>

definition best_step :: "str \<times> real \<Rightarrow> real \<times> str \<Rightarrow> real \<times> str" where
  "best_step cp st =
     (case (cp, st) of
        ((candidate, probability), (best_probability, best_candidate)) \<Rightarrow>
          if probability > best_probability then (probability, candidate)
          else (best_probability, best_candidate))"

definition best_candidate :: "SpellCorrector \<Rightarrow> SpellCorrector" where
  "best_candidate C =
     C\<lparr>misspelled_words :=
         map (\<lambda>e. e\<lparr>best_candidates :=
                       Some (snd (fold best_step (zip (candidates e) (probabilities e)) (-1, [])))\<rparr>)
             (misspelled_words C)\<rparr>"

text \<open>
  The constructor \<open>SpellCorrector(string, vocabulary=None, n_edit=2)\<close>. When no
  vocabulary is given the source takes \<open>sorted(set(words.words()))\<close> from NLTK's
  corpus, which is not part of the repository: that list is the parameter
  \<open>english_words\<close>. \<open>lc\<close> and \<open>alpha\<close> are the tables of \<open>str.lower\<close> and
  \<open>str.isalpha\<close>.
\<close>

definition SpellCorrector_init ::
  "lower_table \<Rightarrow> (codepoint \<Rightarrow> bool) \<Rightarrow> (str \<Rightarrow> str list) \<Rightarrow> str list \<Rightarrow> str \<Rightarrow>
   str list option \<Rightarrow> int \<Rightarrow> SpellCorrector" where
  "SpellCorrector_init lc alpha word_tokenize english_words text vocab n =
     best_candidate (compute_probabilities lc (find_candidates lc
       (find_misspelled lc alpha word_tokenize text
       \<lparr>string = [],
        vocabulary = (case vocab of None \<Rightarrow> english_words | Some v \<Rightarrow> v),
        n_edit = n,
        misspelled_words = []\<rparr>)))"

text \<open>
  \<open>retrive_corrected\<close>. Reading \<open>misspelled_word["best_candidates"]\<close> raises
  \<open>KeyError\<close> when the key is absent.
\<close>

fun replace_all :: "misspelled_word list \<Rightarrow> str \<Rightarrow> py_error + str" where
  "replace_all [] corrected_string = Inr corrected_string"
| "replace_all (e # es) corrected_string =
     (case best_candidates e of
        None \<Rightarrow> Inl KeyError
      | Some best \<Rightarrow> replace_all es (replace corrected_string (misspelled e) best))"

definition retrive_corrected :: "SpellCorrector \<Rightarrow> py_error + str" where
  "retrive_corrected C = replace_all (misspelled_words C) (join (py_str '' '') (string C))"
section \<open>The matrices as functions of the cell\<close>

text \<open>
  The value and the tag that the nested loop of \<open>build_levenshtein\<close> leaves in the
  cell \<open>(i, j)\<close>, read off the loop body: row 0 and column 0 come from the two
  initialisation loops, an interior cell from its three neighbours.
\<close>

fun cell_value :: "str \<Rightarrow> str \<Rightarrow> int \<Rightarrow> int \<Rightarrow> int \<Rightarrow> nat \<Rightarrow> nat \<Rightarrow> uint8" where
  "cell_value s t rc ic dc 0 j = of_nat j"
| "cell_value s t rc ic dc (Suc i) 0 = of_nat (Suc i)"
| "cell_value s t rc ic dc (Suc i) (Suc j) =
     (if s ! i = t ! j then cell_value s t rc ic dc i j
      else
        let minimum = min (cell_value s t rc ic dc (Suc i) j)
                       (min (cell_value s t rc ic dc i (Suc j)) (cell_value s t rc ic dc i j))
        in if minimum = cell_value s t rc ic dc (Suc i) j then minimum + word_of_int ic
           else if minimum = cell_value s t rc ic dc i (Suc j) then minimum + word_of_int dc
           else minimum + word_of_int rc)"

fun cell_tag :: "str \<Rightarrow> str \<Rightarrow> int \<Rightarrow> int \<Rightarrow> int \<Rightarrow> nat \<Rightarrow> nat \<Rightarrow> uint8" where
  "cell_tag s t rc ic dc 0 j = INSERT"
| "cell_tag s t rc ic dc (Suc i) 0 = DELETE"
| "cell_tag s t rc ic dc (Suc i) (Suc j) =
     (if s ! i = t ! j then NO_EDIT
      else
        let minimum = min (cell_value s t rc ic dc (Suc i) j)
                       (min (cell_value s t rc ic dc i (Suc j)) (cell_value s t rc ic dc i j))
        in if minimum = cell_value s t rc ic dc (Suc i) j then INSERT
           else if minimum = cell_value s t rc ic dc i (Suc j) then DELETE
           else REPLACE)"

definition shape :: "nat \<Rightarrow> nat \<Rightarrow> matrix \<Rightarrow> bool" where
  "shape m n X = (length X = Suc m \<and> (\<forall>r<length X. length (X ! r) = Suc n))"

definition same_params :: "levenshtein \<Rightarrow> levenshtein \<Rightarrow> bool" where
  "same_params L L' =
     (source L' = source L \<and> target L' = target L \<and> M L' = M L \<and> N L' = N L \<and>
      replace_cost L' = replace_cost L \<and> insert_cost L' = insert_cost L \<and>
      delete_cost L' = delete_cost L)"

definition well_shaped :: "levenshtein \<Rightarrow> bool" where
  "well_shaped L = (shape (M L) (N L) (distance_matrix L) \<and> shape (M L) (N L) (backtrace_matrix L))"

text \<open>The cells \<open>(i', j')\<close> selected by \<open>P\<close> hold the values of \<open>cell_value\<close>, \<open>cell_tag\<close>.\<close>

definition cells_ok :: "levenshtein \<Rightarrow> (nat \<Rightarrow> nat \<Rightarrow> bool) \<Rightarrow> bool" where
  "cells_ok L P =
     (\<forall>i j. i \<le> M L \<longrightarrow> j \<le> N L \<longrightarrow> P i j \<longrightarrow>
        distance_matrix L ! i ! j =
          cell_value (source L) (target L) (replace_cost L) (insert_cost L) (delete_cost L) i j \<and>
        backtrace_matrix L ! i ! j =
          cell_tag (source L) (target L) (replace_cost L) (insert_cost L) (delete_cost L) i j)"

text \<open>
  What holds of the records \<open>ops\<close> collected by the backtrace walk from the cell
  \<open>(i, j)\<close>, read in reverse: they are at most \<open>i + j\<close>, they turn the first
  \<open>i\<close> characters of \<open>s\<close> into the first \<open>j\<close> characters of \<open>t\<close>, and the
  source and target positions they name are \<open>1 .. i\<close> and \<open>1 .. j\<close> in order.
\<close>

definition walk_ok :: "str \<Rightarrow> str \<Rightarrow> nat \<Rightarrow> nat \<Rightarrow> operation_record list \<Rightarrow> bool" where
  "walk_ok s t i j ops =
     (length ops \<le> i + j \<and>
      apply_records (rev ops) ([], s) = Some (take j t, drop i s) \<and>
      List.map_filter source_char (rev ops) = map (\<lambda>k. (Suc k, s ! k)) [0..<i] \<and>
      List.map_filter target_char (rev ops) = map (\<lambda>k. (Suc k, t ! k)) [0..<j])"

text \<open>
  The distance matrix as the specification words it (sections 3 and 4.1), for the
  comparison with the matrix the code builds: \<open>D[0][j] = j * insertCost\<close>,
  \<open>D[i][0] = i * deleteCost\<close>, an interior cell copies the diagonal neighbour when
  the characters agree and is otherwise the least neighbour plus the cost of the first
  operation, in the order Insert, Delete, Replace, whose neighbour is that least value.
  \<open>red\<close> is applied after every arithmetic step: the identity for unbounded
  integers, \<open>\<lambda>x. x mod 256\<close> for 8-bit unsigned storage.
\<close>

fun spec_distance :: "(int \<Rightarrow> int) \<Rightarrow> str \<Rightarrow> str \<Rightarrow> int \<Rightarrow> int \<Rightarrow> int \<Rightarrow> nat \<Rightarrow> nat \<Rightarrow> int" where
  "spec_distance red s t insertCost deleteCost replaceCost 0 j = red (int j * insertCost)"
| "spec_distance red s t insertCost deleteCost replaceCost (Suc i) 0 = red (int (Suc i) * deleteCost)"
| "spec_distance red s t insertCost deleteCost replaceCost (Suc i) (Suc j) =
     (if s ! i = t ! j then spec_distance red s t insertCost deleteCost replaceCost i j
      else
        let minimum = min (spec_distance red s t insertCost deleteCost replaceCost (Suc i) j)
                       (min (spec_distance red s t insertCost deleteCost replaceCost i (Suc j))
                            (spec_distance red s t insertCost deleteCost replaceCost i j))
        in if minimum = spec_distance red s t insertCost deleteCost replaceCost (Suc i) j
           then red (minimum + insertCost)
           else if minimum = spec_distance red s t insertCost deleteCost replaceCost i (Suc j)
           then red (minimum + deleteCost)
           else red (minimum + replaceCost))"

text \<open>
  The entry of \<open>misspelled_words\<close> for a flagged token \<open>t\<close>, as the four passes of
  the constructor leave it, with the vocabulary \<open>V\<close> and the threshold \<open>n\<close>.
\<close>

definition new_entry :: "str \<Rightarrow> misspelled_word" where
  "new_entry w = \<lparr>misspelled = w, candidates = [], probabilities = [], best_candidates = None\<rparr>"

definition within_edits :: "lower_table \<Rightarrow> int \<Rightarrow> str \<Rightarrow> str \<Rightarrow> bool" where
  "within_edits lc n t w = (uint (get_edit_distance (levenshtein_init lc t w 2 1 1)) \<le> n)"

definition scored :: "lower_table \<Rightarrow> str list \<Rightarrow> int \<Rightarrow> str \<Rightarrow> str \<Rightarrow> real" where
  "scored lc V n t c =
     candidate_probability (count_list V c) (get_edit_distance (levenshtein_init lc t c n 1 1))"

definition final_entry :: "lower_table \<Rightarrow> str list \<Rightarrow> int \<Rightarrow> str \<Rightarrow> misspelled_word" where
  "final_entry lc V n t =
     (let cs = filter (within_edits lc n t) V; ps = map (scored lc V n t) cs
      in \<lparr>misspelled = t, candidates = cs, probabilities = ps,
          best_candidates = Some (snd (fold best_step (zip cs ps) (-1, [])))\<rparr>)"

section \<open>Correctness of the matrix construction\<close>

lemma shape_zeros: "shape m n (zeros (Suc m) (Suc n))"
  by (simp add: shape_def zeros_def del: replicate.simps)

lemma shape_set_cell: "shape m n X \<Longrightarrow> shape m n (set_cell X i j v)"
  by (cases "i < length X") (auto simp: shape_def set_cell_def nth_list_update)

lemma nth_set_cell:
  assumes "shape m n X" "i \<le> m" "j \<le> n"
  shows "set_cell X i j v ! i' ! j' = (if i' = i \<and> j' = j then v else X ! i' ! j')"
  using assms by (auto simp: shape_def set_cell_def nth_list_update)

lemma init_column_keeps:
  "same_params L (init_column i L)" "well_shaped L \<Longrightarrow> well_shaped (init_column i L)"
  by (simp_all add: same_params_def well_shaped_def init_column_def shape_set_cell)

lemma init_row_keeps:
  "same_params L (init_row i L)" "well_shaped L \<Longrightarrow> well_shaped (init_row i L)"
  by (simp_all add: same_params_def well_shaped_def init_row_def shape_set_cell)

lemma fill_cell_keeps:
  "same_params L (fill_cell i j L)" "well_shaped L \<Longrightarrow> well_shaped (fill_cell i j L)"
  by (simp_all add: same_params_def well_shaped_def fill_cell_def shape_set_cell Let_def)

lemma same_params_trans: "same_params L L' \<Longrightarrow> same_params L' L'' \<Longrightarrow> same_params L L''"
  by (simp add: same_params_def)

lemma same_params_refl: "same_params L L"
  by (simp add: same_params_def)

text \<open>After the first loop: column 0 holds \<open>i\<close> and DELETE.\<close>

lemma init_column_loop:
  assumes "well_shaped L" "k \<le> M L + 1"
  shows "same_params L (fold init_column [0..<k] L) \<and> well_shaped (fold init_column [0..<k] L) \<and>
         (\<forall>i<k. distance_matrix (fold init_column [0..<k] L) ! i ! 0 = of_nat i \<and>
                 backtrace_matrix (fold init_column [0..<k] L) ! i ! 0 = DELETE)"
  using assms(2)
proof (induction k)
  case 0
  then show ?case using assms(1) by (simp add: same_params_refl)
next
  case (Suc k)
  let ?L = "fold init_column [0..<k] L"
  from Suc have ih: "same_params L ?L" "well_shaped ?L"
    "\<forall>i<k. distance_matrix ?L ! i ! 0 = of_nat i \<and> backtrace_matrix ?L ! i ! 0 = DELETE"
    by simp_all
  have k: "k \<le> M ?L" using Suc.prems ih(1) by (simp add: same_params_def)
  have sh: "shape (M ?L) (N ?L) (distance_matrix ?L)" "shape (M ?L) (N ?L) (backtrace_matrix ?L)"
    using ih(2) by (simp_all add: well_shaped_def)
  have step: "fold init_column [0..<Suc k] L = init_column k ?L" by simp
  have "same_params L (init_column k ?L)"
    using ih(1) init_column_keeps(1) same_params_trans by blast
  moreover have "well_shaped (init_column k ?L)" using ih(2) by (rule init_column_keeps(2))
  moreover have "\<forall>i<Suc k. distance_matrix (init_column k ?L) ! i ! 0 = of_nat i \<and>
                 backtrace_matrix (init_column k ?L) ! i ! 0 = DELETE"
    using ih(3) by (auto simp: init_column_def nth_set_cell[OF sh(1) k] nth_set_cell[OF sh(2) k] less_Suc_eq)
  ultimately show ?case unfolding step by blast
qed


lemma init_row_loop:
  assumes "well_shaped L" "k \<le> N L + 1"
  shows "same_params L (fold init_row [0..<k] L) \<and> well_shaped (fold init_row [0..<k] L) \<and>
         (\<forall>j<k. distance_matrix (fold init_row [0..<k] L) ! 0 ! j = of_nat j \<and>
                 backtrace_matrix (fold init_row [0..<k] L) ! 0 ! j = INSERT) \<and>
         (\<forall>i j. 0 < i \<longrightarrow>
            distance_matrix (fold init_row [0..<k] L) ! i ! j = distance_matrix L ! i ! j \<and>
            backtrace_matrix (fold init_row [0..<k] L) ! i ! j = backtrace_matrix L ! i ! j)"
  using assms(2)
proof (induction k)
  case 0
  then show ?case using assms(1) by (simp add: same_params_refl)
next
  case (Suc k)
  let ?L = "fold init_row [0..<k] L"
  from Suc have ih: "same_params L ?L" "well_shaped ?L"
    "\<forall>j<k. distance_matrix ?L ! 0 ! j = of_nat j \<and> backtrace_matrix ?L ! 0 ! j = INSERT"
    "\<forall>i j. 0 < i \<longrightarrow> distance_matrix ?L ! i ! j = distance_matrix L ! i ! j \<and>
            backtrace_matrix ?L ! i ! j = backtrace_matrix L ! i ! j"
    by simp_all
  have k: "k \<le> N ?L" using Suc.prems ih(1) by (simp add: same_params_def)
  have z: "0 \<le> M ?L" by simp
  have sh: "shape (M ?L) (N ?L) (distance_matrix ?L)" "shape (M ?L) (N ?L) (backtrace_matrix ?L)"
    using ih(2) by (simp_all add: well_shaped_def)
  have step: "fold init_row [0..<Suc k] L = init_row k ?L" by simp
  have "same_params L (init_row k ?L)"
    using ih(1) init_row_keeps(1) same_params_trans by blast
  moreover have "well_shaped (init_row k ?L)" using ih(2) by (rule init_row_keeps(2))
  moreover have "\<forall>j<Suc k. distance_matrix (init_row k ?L) ! 0 ! j = of_nat j \<and>
                 backtrace_matrix (init_row k ?L) ! 0 ! j = INSERT"
    using ih(3) by (auto simp: init_row_def nth_set_cell[OF sh(1) z k] nth_set_cell[OF sh(2) z k] less_Suc_eq)
  moreover have "\<forall>i j. 0 < i \<longrightarrow>
            distance_matrix (init_row k ?L) ! i ! j = distance_matrix L ! i ! j \<and>
            backtrace_matrix (init_row k ?L) ! i ! j = backtrace_matrix L ! i ! j"
    using ih(4) by (auto simp: init_row_def nth_set_cell[OF sh(1) z k] nth_set_cell[OF sh(2) z k])
  ultimately show ?case unfolding step by blast
qed

lemma cells_ok_border:
  assumes "well_shaped L"
  defines "L2 \<equiv> fold init_row [0..<N L + 1] (fold init_column [0..<M L + 1] L)"
  shows "same_params L L2" "well_shaped L2" "cells_ok L2 (\<lambda>i j. i < 1 \<or> j = 0)"
proof -
  let ?L1 = "fold init_column [0..<M L + 1] L"
  have c: "same_params L ?L1" "well_shaped ?L1"
    "\<forall>i<M L + 1. distance_matrix ?L1 ! i ! 0 = of_nat i \<and> backtrace_matrix ?L1 ! i ! 0 = DELETE"
    using init_column_loop[OF assms(1), of "M L + 1"] by simp_all
  have n: "N ?L1 = N L" "M ?L1 = M L" using c(1) by (simp_all add: same_params_def)
  have r: "same_params ?L1 L2" "well_shaped L2"
    "\<forall>j<N L + 1. distance_matrix L2 ! 0 ! j = of_nat j \<and> backtrace_matrix L2 ! 0 ! j = INSERT"
    "\<forall>i j. 0 < i \<longrightarrow> distance_matrix L2 ! i ! j = distance_matrix ?L1 ! i ! j \<and>
            backtrace_matrix L2 ! i ! j = backtrace_matrix ?L1 ! i ! j"
    using init_row_loop[OF c(2), of "N L + 1"] n unfolding L2_def by simp_all
  show sp: "same_params L L2" using c(1) r(1) by (rule same_params_trans)
  show "well_shaped L2" by (rule r(2))
  have mn: "M L2 = M L" "N L2 = N L" using sp by (simp_all add: same_params_def)
  show "cells_ok L2 (\<lambda>i j. i < 1 \<or> j = 0)"
    unfolding cells_ok_def mn
  proof (intro allI impI)
    fix i j assume ij: "i \<le> M L" "j \<le> N L" "i < 1 \<or> j = 0"
    show "distance_matrix L2 ! i ! j =
            cell_value (source L2) (target L2) (replace_cost L2) (insert_cost L2) (delete_cost L2) i j \<and>
          backtrace_matrix L2 ! i ! j =
            cell_tag (source L2) (target L2) (replace_cost L2) (insert_cost L2) (delete_cost L2) i j"
    proof (cases i)
      case 0
      then show ?thesis using r(3) ij(2) by simp
    next
      case (Suc i')
      then have "j = 0" using ij(3) by simp
      then show ?thesis using Suc r(4) c(3) ij(1) by simp
    qed
  qed
qed

lemma cells_ok_mono:
  assumes "cells_ok L P" "\<And>i j. i \<le> M L \<Longrightarrow> j \<le> N L \<Longrightarrow> Q i j \<Longrightarrow> P i j"
  shows "cells_ok L Q"
  using assms unfolding cells_ok_def by blast

lemma fill_cell_step:
  assumes ws: "well_shaped L" and i: "1 \<le> i" "i \<le> M L" and j: "1 \<le> j" "j \<le> N L"
    and ok: "cells_ok L (\<lambda>i' j'. i' < i \<or> j' = 0 \<or> (i' = i \<and> j' < j))"
  shows "cells_ok (fill_cell i j L) (\<lambda>i' j'. i' < i \<or> j' = 0 \<or> (i' = i \<and> j' < Suc j))"
proof -
  obtain i0 j0 where ij: "i = Suc i0" "j = Suc j0"
    using i(1) j(1) by (metis One_nat_def Suc_le_D)
  let ?cv = "cell_value (source L) (target L) (replace_cost L) (insert_cost L) (delete_cost L)"
  let ?ct = "cell_tag (source L) (target L) (replace_cost L) (insert_cost L) (delete_cost L)"
  let ?D = "distance_matrix L" and ?B = "backtrace_matrix L"
  have nb: "?D ! i ! (j - 1) = ?cv (Suc i0) j0" "?D ! (i - 1) ! j = ?cv i0 (Suc j0)"
    "?D ! (i - 1) ! (j - 1) = ?cv i0 j0"
    using ok i j unfolding cells_ok_def ij by simp_all
  have sh: "shape (M L) (N L) ?D" "shape (M L) (N L) ?B"
    using ws by (simp_all add: well_shaped_def)
  have D': "distance_matrix (fill_cell i j L) = set_cell ?D i j (?cv i j)"
    unfolding fill_cell_def Let_def nb unfolding ij by simp
  have B': "backtrace_matrix (fill_cell i j L) = set_cell ?B i j (?ct i j)"
    unfolding fill_cell_def Let_def nb unfolding ij by simp
  have par: "source (fill_cell i j L) = source L" "target (fill_cell i j L) = target L"
    "M (fill_cell i j L) = M L" "N (fill_cell i j L) = N L"
    "replace_cost (fill_cell i j L) = replace_cost L" "insert_cost (fill_cell i j L) = insert_cost L"
    "delete_cost (fill_cell i j L) = delete_cost L"
    using fill_cell_keeps(1)[of L i j] by (simp_all add: same_params_def)
  show ?thesis
    unfolding cells_ok_def par D' B'
    using ok unfolding cells_ok_def
    by (auto simp: nth_set_cell[OF sh(1) i(2) j(2)] nth_set_cell[OF sh(2) i(2) j(2)] less_Suc_eq)
qed

lemma fill_row_loop:
  assumes ws: "well_shaped L" and i: "1 \<le> i" "i \<le> M L"
    and ok: "cells_ok L (\<lambda>i' j'. i' < i \<or> j' = 0)"
    and k: "k \<le> N L"
  shows "same_params L (fold (fill_cell i) [1..<Suc k] L) \<and>
         well_shaped (fold (fill_cell i) [1..<Suc k] L) \<and>
         cells_ok (fold (fill_cell i) [1..<Suc k] L) (\<lambda>i' j'. i' < i \<or> j' = 0 \<or> (i' = i \<and> j' < Suc k))"
  using k
proof (induction k)
  case 0
  show ?case using ws ok by (auto simp: same_params_refl elim: cells_ok_mono)
next
  case (Suc k)
  let ?L = "fold (fill_cell i) [1..<Suc k] L"
  from Suc have ih: "same_params L ?L" "well_shaped ?L"
    "cells_ok ?L (\<lambda>i' j'. i' < i \<or> j' = 0 \<or> (i' = i \<and> j' < Suc k))"
    by simp_all
  have mn: "M ?L = M L" "N ?L = N L" using ih(1) by (simp_all add: same_params_def)
  have step: "fold (fill_cell i) [1..<Suc (Suc k)] L = fill_cell i (Suc k) ?L" by simp
  have "cells_ok (fill_cell i (Suc k) ?L) (\<lambda>i' j'. i' < i \<or> j' = 0 \<or> (i' = i \<and> j' < Suc (Suc k)))"
    using fill_cell_step[OF ih(2), of i "Suc k"] i Suc.prems ih(3) mn by simp
  moreover have "same_params L (fill_cell i (Suc k) ?L)"
    using ih(1) fill_cell_keeps(1) same_params_trans by blast
  moreover have "well_shaped (fill_cell i (Suc k) ?L)" using ih(2) by (rule fill_cell_keeps(2))
  ultimately show ?case unfolding step by blast
qed

lemma fill_rows_loop:
  assumes ws: "well_shaped L" and ok: "cells_ok L (\<lambda>i' j'. i' < 1 \<or> j' = 0)" and k: "k \<le> M L"
  shows "same_params L (fold fill_row [1..<Suc k] L) \<and>
         well_shaped (fold fill_row [1..<Suc k] L) \<and>
         cells_ok (fold fill_row [1..<Suc k] L) (\<lambda>i' j'. i' < Suc k \<or> j' = 0)"
  using k
proof (induction k)
  case 0
  show ?case using ws ok by (simp add: same_params_refl)
next
  case (Suc k)
  let ?L = "fold fill_row [1..<Suc k] L"
  from Suc have ih: "same_params L ?L" "well_shaped ?L"
    "cells_ok ?L (\<lambda>i' j'. i' < Suc k \<or> j' = 0)"
    by simp_all
  have mn: "M ?L = M L" "N ?L = N L" using ih(1) by (simp_all add: same_params_def)
  have step: "fold fill_row [1..<Suc (Suc k)] L = fill_row (Suc k) ?L" by simp
  have row: "same_params ?L (fill_row (Suc k) ?L)" "well_shaped (fill_row (Suc k) ?L)"
    "cells_ok (fill_row (Suc k) ?L) (\<lambda>i' j'. i' < Suc k \<or> j' = 0 \<or> (i' = Suc k \<and> j' < Suc (N ?L)))"
  proof -
    have p: "1 \<le> Suc k" "Suc k \<le> M ?L" using Suc.prems unfolding mn by simp_all
    have fr: "fill_row (Suc k) ?L = fold (fill_cell (Suc k)) [1..<Suc (N ?L)] ?L"
      unfolding fill_row_def by (simp del: upt_Suc)
    note r = fill_row_loop[OF ih(2) p ih(3) le_refl]
    show "same_params ?L (fill_row (Suc k) ?L)" "well_shaped (fill_row (Suc k) ?L)"
      "cells_ok (fill_row (Suc k) ?L) (\<lambda>i' j'. i' < Suc k \<or> j' = 0 \<or> (i' = Suc k \<and> j' < Suc (N ?L)))"
      unfolding fr using r by blast+
  qed
  have "cells_ok (fill_row (Suc k) ?L) (\<lambda>i' j'. i' < Suc (Suc k) \<or> j' = 0)"
    using row(3) by (rule cells_ok_mono) (use row(1) in \<open>auto simp: same_params_def less_Suc_eq\<close>)
  moreover have "same_params L (fill_row (Suc k) ?L)"
    using ih(1) row(1) by (rule same_params_trans)
  ultimately show ?case unfolding step using row(2) by blast
qed

lemma build_levenshtein_cells:
  assumes "well_shaped L"
  shows "same_params L (build_levenshtein L)" "well_shaped (build_levenshtein L)"
    "cells_ok (build_levenshtein L) (\<lambda>i j. True)"
proof -
  let ?L2 = "fold init_row [0..<N L + 1] (fold init_column [0..<M L + 1] L)"
  note b = cells_ok_border[OF assms]
  have mn: "M ?L2 = M L" "N ?L2 = N L" using b(1) by (simp_all add: same_params_def)
  have bl: "build_levenshtein L = fold fill_row [1..<Suc (M L)] ?L2"
    by (simp add: build_levenshtein_def Let_def del: upt_Suc)
  have "M L \<le> M ?L2" using mn by simp
  note f = fill_rows_loop[OF b(2) b(3) this]
  show sp: "same_params L (build_levenshtein L)"
    unfolding bl using b(1) f same_params_trans by blast
  show "well_shaped (build_levenshtein L)" unfolding bl using f by blast
  have "cells_ok (fold fill_row [1..<Suc (M L)] ?L2) (\<lambda>i' j'. i' < Suc (M L) \<or> j' = 0)"
    using f by blast
  then show "cells_ok (build_levenshtein L) (\<lambda>i j. True)"
    unfolding bl[symmetric]
    by (rule cells_ok_mono) (use sp in \<open>auto simp: same_params_def less_Suc_eq\<close>)
qed

lemma levenshtein_init_params:
  "source (levenshtein_init lc src tgt rc ic dc) = lower lc src"
  "target (levenshtein_init lc src tgt rc ic dc) = lower lc tgt"
  "M (levenshtein_init lc src tgt rc ic dc) = length src"
  "N (levenshtein_init lc src tgt rc ic dc) = length tgt"
  "replace_cost (levenshtein_init lc src tgt rc ic dc) = rc"
  "insert_cost (levenshtein_init lc src tgt rc ic dc) = ic"
  "delete_cost (levenshtein_init lc src tgt rc ic dc) = dc"
proof -
  let ?L0 = "\<lparr>source = lower lc src, target = lower lc tgt, M = length src, N = length tgt,
        replace_cost = rc, insert_cost = ic, delete_cost = dc,
        distance_matrix = zeros (length src + 1) (length tgt + 1),
        backtrace_matrix = zeros (length src + 1) (length tgt + 1)\<rparr>"
  have "well_shaped ?L0" by (simp add: well_shaped_def shape_zeros)
  then have "same_params ?L0 (build_levenshtein ?L0)" by (rule build_levenshtein_cells(1))
  then show "source (levenshtein_init lc src tgt rc ic dc) = lower lc src"
  "target (levenshtein_init lc src tgt rc ic dc) = lower lc tgt"
  "M (levenshtein_init lc src tgt rc ic dc) = length src"
  "N (levenshtein_init lc src tgt rc ic dc) = length tgt"
  "replace_cost (levenshtein_init lc src tgt rc ic dc) = rc"
  "insert_cost (levenshtein_init lc src tgt rc ic dc) = ic"
  "delete_cost (levenshtein_init lc src tgt rc ic dc) = dc"
    by (simp_all add: same_params_def levenshtein_init_def)
qed

lemma levenshtein_init_cells:
  assumes "i \<le> length src" "j \<le> length tgt"
  shows "distance_matrix (levenshtein_init lc src tgt rc ic dc) ! i ! j =
           cell_value (lower lc src) (lower lc tgt) rc ic dc i j"
    and "backtrace_matrix (levenshtein_init lc src tgt rc ic dc) ! i ! j =
           cell_tag (lower lc src) (lower lc tgt) rc ic dc i j"
proof -
  let ?L0 = "\<lparr>source = lower lc src, target = lower lc tgt, M = length src, N = length tgt,
        replace_cost = rc, insert_cost = ic, delete_cost = dc,
        distance_matrix = zeros (length src + 1) (length tgt + 1),
        backtrace_matrix = zeros (length src + 1) (length tgt + 1)\<rparr>"
  have "well_shaped ?L0" by (simp add: well_shaped_def shape_zeros)
  then have "cells_ok (build_levenshtein ?L0) (\<lambda>i j. True)" by (rule build_levenshtein_cells(3))
  then have c: "cells_ok (levenshtein_init lc src tgt rc ic dc) (\<lambda>i j. True)"
    by (simp add: levenshtein_init_def)
  show "distance_matrix (levenshtein_init lc src tgt rc ic dc) ! i ! j =
           cell_value (lower lc src) (lower lc tgt) rc ic dc i j"
    using c assms unfolding cells_ok_def levenshtein_init_params by simp
  show "backtrace_matrix (levenshtein_init lc src tgt rc ic dc) ! i ! j =
           cell_tag (lower lc src) (lower lc tgt) rc ic dc i j"
    using c assms unfolding cells_ok_def levenshtein_init_params by simp
qed

section \<open>The backtrace walk on a constructed engine\<close>

lemma tags_distinct:
  "INSERT \<noteq> DELETE" "INSERT \<noteq> REPLACE" "INSERT \<noteq> NO_EDIT" "DELETE \<noteq> REPLACE"
  "DELETE \<noteq> NO_EDIT" "REPLACE \<noteq> NO_EDIT"
  "DELETE \<noteq> INSERT" "REPLACE \<noteq> INSERT" "NO_EDIT \<noteq> INSERT" "REPLACE \<noteq> DELETE"
  "NO_EDIT \<noteq> DELETE" "NO_EDIT \<noteq> REPLACE"
  by (simp_all add: INSERT_def DELETE_def REPLACE_def NO_EDIT_def)

lemma apply_records_append:
  "apply_records (xs @ ys) st =
     (case apply_records xs st of None \<Rightarrow> None | Some st' \<Rightarrow> apply_records ys st')"
  by (induction xs arbitrary: st) (auto split: option.splits)

lemma map_filter_snoc:
  "List.map_filter f (xs @ [x]) =
     List.map_filter f xs @ (case f x of None \<Rightarrow> [] | Some y \<Rightarrow> [y])"
  by (auto simp: List.map_filter_def split: option.splits)

lemma walk_ok_Nil: "walk_ok s t 0 0 []"
  by (simp add: walk_ok_def List.map_filter_def)

lemma walk_ok_insert:
  assumes "walk_ok s t i j ops" "j < length t"
  shows "walk_ok s t i (Suc j)
           (\<lparr>operation = ''inserting'', char_index = Suc j, source_char = None,
             target_char = Some (Suc j, t ! j)\<rparr> # ops)"
  using assms
  by (simp add: walk_ok_def apply_records_append map_filter_snoc take_Suc_conv_app_nth)

lemma walk_ok_delete:
  assumes "walk_ok s t i j ops" "i < length s"
  shows "walk_ok s t (Suc i) j
           (\<lparr>operation = ''deleting'', char_index = Suc i, source_char = Some (Suc i, s ! i),
             target_char = None\<rparr> # ops)"
  using assms
  by (simp add: walk_ok_def apply_records_append map_filter_snoc Cons_nth_drop_Suc[symmetric])

lemma walk_ok_replace:
  assumes "walk_ok s t i j ops" "i < length s" "j < length t"
  shows "walk_ok s t (Suc i) (Suc j)
           (\<lparr>operation = ''replacing'', char_index = Suc i, source_char = Some (Suc i, s ! i),
             target_char = Some (Suc j, t ! j)\<rparr> # ops)"
  using assms
  by (simp add: walk_ok_def apply_records_append map_filter_snoc Cons_nth_drop_Suc[symmetric]
      take_Suc_conv_app_nth)

lemma walk_ok_no_edit:
  assumes "walk_ok s t i j ops" "i < length s" "j < length t" "s ! i = t ! j"
  shows "walk_ok s t (Suc i) (Suc j)
           (\<lparr>operation = ''no_edit'', char_index = Suc i, source_char = Some (Suc i, s ! i),
             target_char = Some (Suc j, t ! j)\<rparr> # ops)"
  using assms
  by (simp add: walk_ok_def apply_records_append map_filter_snoc Cons_nth_drop_Suc[symmetric]
      take_Suc_conv_app_nth)


declare operations_loop.simps [simp del]

lemma loop_done: "operations_loop L 0 0 acc = Inr acc"
  by (subst operations_loop.simps) simp

lemma loop_insert:
  assumes "backtrace_matrix L ! i ! Suc j = INSERT"
  shows "operations_loop L i (Suc j) acc =
           operations_loop L i j
             (acc @ [\<lparr>operation = ''inserting'', char_index = Suc j, source_char = None,
                      target_char = Some (Suc j, target L ! j)\<rparr>])"
  by (subst operations_loop.simps) (simp add: assms)

lemma loop_delete:
  assumes "backtrace_matrix L ! Suc i ! j = DELETE"
  shows "operations_loop L (Suc i) j acc =
           operations_loop L i j
             (acc @ [\<lparr>operation = ''deleting'', char_index = Suc i,
                      source_char = Some (Suc i, source L ! i), target_char = None\<rparr>])"
  by (subst operations_loop.simps) (simp add: assms tags_distinct)

lemma loop_replace:
  assumes "backtrace_matrix L ! Suc i ! Suc j = REPLACE"
  shows "operations_loop L (Suc i) (Suc j) acc =
           operations_loop L i j
             (acc @ [\<lparr>operation = ''replacing'', char_index = Suc i,
                      source_char = Some (Suc i, source L ! i),
                      target_char = Some (Suc j, target L ! j)\<rparr>])"
  by (subst operations_loop.simps) (simp add: assms tags_distinct)

lemma loop_no_edit:
  assumes "backtrace_matrix L ! Suc i ! Suc j = NO_EDIT"
  shows "operations_loop L (Suc i) (Suc j) acc =
           operations_loop L i j
             (acc @ [\<lparr>operation = ''no_edit'', char_index = Suc i,
                      source_char = Some (Suc i, source L ! i),
                      target_char = Some (Suc j, target L ! j)\<rparr>])"
  by (subst operations_loop.simps) (simp add: assms tags_distinct)

lemma cell_tag_interior:
  "(cell_tag s t rc ic dc (Suc i) (Suc j) = NO_EDIT \<and> s ! i = t ! j) \<or>
   cell_tag s t rc ic dc (Suc i) (Suc j) = INSERT \<or>
   cell_tag s t rc ic dc (Suc i) (Suc j) = DELETE \<or>
   cell_tag s t rc ic dc (Suc i) (Suc j) = REPLACE"
  by (simp add: Let_def)

lemma operations_loop_walk:
  assumes B: "\<And>i j. i \<le> M L \<Longrightarrow> j \<le> N L \<Longrightarrow>
                backtrace_matrix L ! i ! j = cell_tag (source L) (target L) rc ic dc i j"
    and len: "M L \<le> length (source L)" "N L \<le> length (target L)"
  shows "i \<le> M L \<Longrightarrow> j \<le> N L \<Longrightarrow>
         \<exists>ops. operations_loop L i j acc = Inr (acc @ ops) \<and>
               walk_ok (source L) (target L) i j ops"
proof (induction "i + j" arbitrary: i j acc rule: less_induct)
  case less
  let ?s = "source L" and ?t = "target L"
  show ?case
  proof (cases i)
    case i0: 0
    show ?thesis
    proof (cases j)
      case 0
      then show ?thesis using i0 by (simp add: loop_done walk_ok_Nil)
    next
      case (Suc j')
      let ?r = "\<lparr>operation = ''inserting'', char_index = Suc j', source_char = None,
                 target_char = Some (Suc j', ?t ! j')\<rparr>"
      have tag: "backtrace_matrix L ! i ! Suc j' = INSERT"
        using B[of i j] less.prems i0 Suc by simp
      have "j' \<le> N L" "i + j' < i + j" using less.prems Suc by simp_all
      from less.hyps[OF this(2) less.prems(1) this(1), of "acc @ [?r]"]
      obtain ops where ops: "operations_loop L i j' (acc @ [?r]) = Inr ((acc @ [?r]) @ ops)"
        "walk_ok ?s ?t i j' ops" by blast
      have "operations_loop L i j acc = Inr (acc @ (?r # ops))"
        unfolding Suc loop_insert[OF tag] ops(1) by simp
      moreover have "walk_ok ?s ?t i j (?r # ops)"
        unfolding Suc using ops(2) by (rule walk_ok_insert) (use less.prems len Suc in simp)
      ultimately show ?thesis by blast
    qed
  next
    case i1: (Suc i')
    have i': "i' \<le> M L" "i' < length ?s" using less.prems len i1 by simp_all
    show ?thesis
    proof (cases j)
      case 0
      let ?r = "\<lparr>operation = ''deleting'', char_index = Suc i',
                 source_char = Some (Suc i', ?s ! i'), target_char = None\<rparr>"
      have tag: "backtrace_matrix L ! Suc i' ! j = DELETE"
        using B[of i j] less.prems i1 0 by simp
      have "i' + j < i + j" using i1 by simp
      from less.hyps[OF this i'(1) less.prems(2), of "acc @ [?r]"]
      obtain ops where ops: "operations_loop L i' j (acc @ [?r]) = Inr ((acc @ [?r]) @ ops)"
        "walk_ok ?s ?t i' j ops" by blast
      have "operations_loop L i j acc = Inr (acc @ (?r # ops))"
        unfolding i1 loop_delete[OF tag] ops(1) by simp
      moreover have "walk_ok ?s ?t i j (?r # ops)"
        unfolding i1 using ops(2) i'(2) by (rule walk_ok_delete)
      ultimately show ?thesis by blast
    next
      case (Suc j')
      have j': "j' \<le> N L" "j' < length ?t" using less.prems len Suc by simp_all
      have tagv: "backtrace_matrix L ! Suc i' ! Suc j' = cell_tag ?s ?t rc ic dc (Suc i') (Suc j')"
        using B[of i j] less.prems i1 Suc by simp
      consider
        (N) "backtrace_matrix L ! Suc i' ! Suc j' = NO_EDIT" "?s ! i' = ?t ! j'"
        | (I) "backtrace_matrix L ! Suc i' ! Suc j' = INSERT"
        | (D) "backtrace_matrix L ! Suc i' ! Suc j' = DELETE"
        | (R) "backtrace_matrix L ! Suc i' ! Suc j' = REPLACE"
        using cell_tag_interior[of ?s ?t rc ic dc i' j'] unfolding tagv by blast
      then show ?thesis
      proof cases
        case N
        let ?r = "\<lparr>operation = ''no_edit'', char_index = Suc i',
                   source_char = Some (Suc i', ?s ! i'), target_char = Some (Suc j', ?t ! j')\<rparr>"
        have "i' + j' < i + j" using i1 Suc by simp
        from less.hyps[OF this i'(1) j'(1), of "acc @ [?r]"]
        obtain ops where ops: "operations_loop L i' j' (acc @ [?r]) = Inr ((acc @ [?r]) @ ops)"
          "walk_ok ?s ?t i' j' ops" by blast
        have "operations_loop L i j acc = Inr (acc @ (?r # ops))"
          unfolding i1 Suc loop_no_edit[OF N(1)] ops(1) by simp
        moreover have "walk_ok ?s ?t i j (?r # ops)"
          unfolding i1 Suc using ops(2) i'(2) j'(2) N(2) by (rule walk_ok_no_edit)
        ultimately show ?thesis by blast
      next
        case I
        let ?r = "\<lparr>operation = ''inserting'', char_index = Suc j', source_char = None,
                   target_char = Some (Suc j', ?t ! j')\<rparr>"
        have "i + j' < i + j" using Suc by simp
        from less.hyps[OF this less.prems(1) j'(1), of "acc @ [?r]"]
        obtain ops where ops: "operations_loop L i j' (acc @ [?r]) = Inr ((acc @ [?r]) @ ops)"
          "walk_ok ?s ?t i j' ops" by blast
        have "operations_loop L i j acc = Inr (acc @ (?r # ops))"
          unfolding Suc using loop_insert[of L i j' acc] I ops(1) i1 by simp
        moreover have "walk_ok ?s ?t i j (?r # ops)"
          unfolding Suc using ops(2) j'(2) by (rule walk_ok_insert)
        ultimately show ?thesis by blast
      next
        case D
        let ?r = "\<lparr>operation = ''deleting'', char_index = Suc i',
                   source_char = Some (Suc i', ?s ! i'), target_char = None\<rparr>"
        have "i' + j < i + j" using i1 by simp
        from less.hyps[OF this i'(1) less.prems(2), of "acc @ [?r]"]
        obtain ops where ops: "operations_loop L i' j (acc @ [?r]) = Inr ((acc @ [?r]) @ ops)"
          "walk_ok ?s ?t i' j ops" by blast
        have "operations_loop L i j acc = Inr (acc @ (?r # ops))"
          unfolding i1 using loop_delete[of L i' j acc] D ops(1) Suc by simp
        moreover have "walk_ok ?s ?t i j (?r # ops)"
          unfolding i1 using ops(2) i'(2) by (rule walk_ok_delete)
        ultimately show ?thesis by blast
      next
        case R
        let ?r = "\<lparr>operation = ''replacing'', char_index = Suc i',
                   source_char = Some (Suc i', ?s ! i'), target_char = Some (Suc j', ?t ! j')\<rparr>"
        have "i' + j' < i + j" using i1 Suc by simp
        from less.hyps[OF this i'(1) j'(1), of "acc @ [?r]"]
        obtain ops where ops: "operations_loop L i' j' (acc @ [?r]) = Inr ((acc @ [?r]) @ ops)"
          "walk_ok ?s ?t i' j' ops" by blast
        have "operations_loop L i j acc = Inr (acc @ (?r # ops))"
          unfolding i1 Suc loop_replace[OF R] ops(1) by simp
        moreover have "walk_ok ?s ?t i j (?r # ops)"
          unfolding i1 Suc using ops(2) i'(2) j'(2) by (rule walk_ok_replace)
        ultimately show ?thesis by blast
      qed
    qed
  qed
qed

lemma length_concat_nonempty:
  "length xs \<le> length (concat (map (\<lambda>x. f x # g x) xs))"
  by (induction xs) simp_all

lemma length_lower: "length s \<le> length (lower lc s)"
  using length_concat_nonempty[of "[0..<length s]"] by (simp add: lower_def)

lemma operations_history_built:
  "\<exists>ops. operations_history (levenshtein_init lc src tgt rc ic dc) = Inr ops \<and>
         walk_ok (lower lc src) (lower lc tgt) (length src) (length tgt) (rev ops)"
proof -
  let ?L = "levenshtein_init lc src tgt rc ic dc"
  have "\<exists>ops. operations_loop ?L (M ?L) (N ?L) [] = Inr ([] @ ops) \<and>
               walk_ok (source ?L) (target ?L) (M ?L) (N ?L) ops"
  proof (rule operations_loop_walk)
    fix i j assume "i \<le> M ?L" "j \<le> N ?L"
    then show "backtrace_matrix ?L ! i ! j = cell_tag (source ?L) (target ?L) rc ic dc i j"
      by (simp add: levenshtein_init_params levenshtein_init_cells)
  qed (simp_all add: levenshtein_init_params length_lower)
  then show ?thesis
    by (auto simp: operations_history_def levenshtein_init_params)
qed

section \<open>Cells as numbers, and the diagonal\<close>

lemma cell_value_col0: "cell_value s t rc ic dc i 0 = of_nat i"
  by (cases i) simp_all

lemma uint_plus_cost: "uint (a + word_of_int c :: uint8) = (uint a + c) mod 256"
  by (simp add: uint_word_ariths uint_word_of_int mod_add_right_eq)

lemma uint_of_nat8: "uint (of_nat n :: uint8) = int n mod 256"
  by (simp add: uint_nat unat_of_nat zmod_int)

lemma uint_min: "uint (min a b :: uint8) = min (uint a) (uint b)"
  by (simp add: min_def word_le_def)

lemma cell_value_diag: "cell_value s s rc ic dc i i = 0"
  by (induction i) simp_all


lemma cell_tag_diag: "cell_tag s s rc ic dc (Suc i) (Suc i) = NO_EDIT"
  by simp

lemma operations_loop_diag:
  assumes "\<And>k. k < i \<Longrightarrow> backtrace_matrix L ! Suc k ! Suc k = NO_EDIT"
  shows "\<exists>ops. operations_loop L i i acc = Inr (acc @ ops) \<and> length ops = i \<and>
               list_all (\<lambda>r. operation r = ''no_edit'') ops"
  using assms
proof (induction i arbitrary: acc)
  case 0
  show ?case by (simp add: loop_done)
next
  case (Suc i)
  let ?r = "\<lparr>operation = ''no_edit'', char_index = Suc i,
             source_char = Some (Suc i, source L ! i), target_char = Some (Suc i, target L ! i)\<rparr>"
  have "backtrace_matrix L ! Suc i ! Suc i = NO_EDIT" using Suc.prems by simp
  note st = loop_no_edit[OF this, of acc]
  have "\<And>k. k < i \<Longrightarrow> backtrace_matrix L ! Suc k ! Suc k = NO_EDIT" using Suc.prems by simp
  from Suc.IH[OF this, of "acc @ [?r]"]
  obtain ops where ops: "operations_loop L i i (acc @ [?r]) = Inr ((acc @ [?r]) @ ops)"
    "length ops = i" "list_all (\<lambda>r. operation r = ''no_edit'') ops"
    by blast
  have "operations_loop L (Suc i) (Suc i) acc = Inr (acc @ (?r # ops))"
    unfolding st ops(1) by simp
  moreover have "length (?r # ops) = Suc i" "list_all (\<lambda>r. operation r = ''no_edit'') (?r # ops)"
    using ops(2,3) by simp_all
  ultimately show ?case by blast
qed


lemma step_refines:
  fixes a b c :: uint8
  assumes "uint a = a'" "uint b = b'" "uint c = c'"
  shows "uint (let minimum = min a (min b c)
               in if minimum = a then minimum + word_of_int ic
                  else if minimum = b then minimum + word_of_int dc
                  else minimum + word_of_int rc) =
         (let minimum = min a' (min b' c')
          in if minimum = a' then (minimum + ic) mod 256
             else if minimum = b' then (minimum + dc) mod 256
             else (minimum + rc) mod 256)"
proof -
  have m: "uint (min a (min b c)) = min a' (min b' c')"
    using assms by (simp add: uint_min)
  have e: "(min a (min b c) = a) = (min a' (min b' c') = a')"
    "(min a (min b c) = b) = (min a' (min b' c') = b')"
    using m assms by (metis word_uint_eq_iff)+
  show ?thesis
    unfolding Let_def e by (simp add: uint_plus_cost m)
qed

lemma cell_value_refines:
  "uint (cell_value s t rc 1 1 i j) = spec_distance (\<lambda>x. x mod 256) s t 1 1 rc i j"
proof (induction i arbitrary: j)
  case 0
  show ?case by (simp add: uint_of_nat8)
next
  case (Suc i)
  note ih = Suc.IH
  show ?case
  proof (induction j)
    case 0
    show ?case by (simp add: uint_of_nat8 del: of_nat_Suc)
  next
    case (Suc j)
    show ?case
    proof (cases "s ! i = t ! j")
      case True
      have "cell_value s t rc 1 1 (Suc i) (Suc j) = cell_value s t rc 1 1 i j"
        "spec_distance (\<lambda>x. x mod 256) s t 1 1 rc (Suc i) (Suc j) =
         spec_distance (\<lambda>x. x mod 256) s t 1 1 rc i j"
        using True by simp_all
      then show ?thesis using ih[of j] by (simp only:)
    next
      case False
      show ?thesis
        using False step_refines[OF Suc.IH ih[of "Suc j"] ih[of j], of 1 1 rc]
        by (simp only: cell_value.simps spec_distance.simps if_False simp_thms)
    qed
  qed
qed

lemma spec_distance_col0:
  "spec_distance red s t ic dc rc i 0 = red (int i * (if i = 0 then ic else dc))"
  by (cases i) simp_all


section \<open>The four passes of the corrector\<close>

lemma flag_fold:
  "fold (\<lambda>word ms. if isalpha alpha word then if word \<notin> set V then ms @ [new_entry word] else ms else ms)
        ws ms =
   ms @ map new_entry (filter (\<lambda>w. isalpha alpha w \<and> w \<notin> set V) ws)"
  by (induction ws arbitrary: ms) simp_all

lemma candidates_fold:
  "fold (\<lambda>word e. if within_edits lc n (misspelled e) word
                   then e\<lparr>candidates := candidates e @ [word]\<rparr> else e) V e =
   e\<lparr>candidates := candidates e @ filter (within_edits lc n (misspelled e)) V\<rparr>"
  by (induction V arbitrary: e) simp_all

lemma probabilities_fold:
  "fold (\<lambda>candidate e.
           e\<lparr>probabilities := probabilities e @
               [candidate_probability (count_list V candidate)
                  (get_edit_distance (levenshtein_init lc (misspelled e) candidate n 1 1))]\<rparr>) cs e =
   e\<lparr>probabilities := probabilities e @ map (scored lc V n (misspelled e)) cs\<rparr>"
  by (induction cs arbitrary: e) (simp_all add: scored_def)

lemma find_misspelled_fields:
  "vocabulary (find_misspelled lc alpha word_tokenize text C) = vocabulary C"
  "n_edit (find_misspelled lc alpha word_tokenize text C) = n_edit C"
  "string (find_misspelled lc alpha word_tokenize text C) = map (lower lc) (word_tokenize text)"
  "misspelled_words (find_misspelled lc alpha word_tokenize text C) =
     misspelled_words C @
     map new_entry (filter (\<lambda>w. isalpha alpha w \<and> w \<notin> set (vocabulary C)) (map (lower lc) (word_tokenize text)))"
  by (simp_all add: find_misspelled_def Let_def flag_fold[unfolded new_entry_def] new_entry_def)

lemma find_candidates_fields:
  "vocabulary (find_candidates lc C) = vocabulary C"
  "n_edit (find_candidates lc C) = n_edit C"
  "string (find_candidates lc C) = string C"
  "misspelled_words (find_candidates lc C) =
     map (\<lambda>e. e\<lparr>candidates := candidates e @
                   filter (within_edits lc (n_edit C) (misspelled e)) (vocabulary C)\<rparr>)
       (misspelled_words C)"
  by (simp_all add: find_candidates_def candidates_fold[unfolded within_edits_def] within_edits_def[abs_def])

lemma compute_probabilities_fields:
  "vocabulary (compute_probabilities lc C) = vocabulary C"
  "n_edit (compute_probabilities lc C) = n_edit C"
  "string (compute_probabilities lc C) = string C"
  "misspelled_words (compute_probabilities lc C) =
     map (\<lambda>e. e\<lparr>probabilities := map (scored lc (vocabulary C) (n_edit C) (misspelled e)) (candidates e)\<rparr>)
       (misspelled_words C)"
  by (simp_all add: compute_probabilities_def probabilities_fold)

lemma best_candidate_fields:
  "vocabulary (best_candidate C) = vocabulary C"
  "n_edit (best_candidate C) = n_edit C"
  "string (best_candidate C) = string C"
  "misspelled_words (best_candidate C) =
     map (\<lambda>e. e\<lparr>best_candidates :=
                   Some (snd (fold best_step (zip (candidates e) (probabilities e)) (-1, [])))\<rparr>)
       (misspelled_words C)"
  by (simp_all add: best_candidate_def)

lemma SpellCorrector_init_fields:
  fixes vocab :: "str list option" and english_words :: "str list"
  defines "V \<equiv> (case vocab of None \<Rightarrow> english_words | Some v \<Rightarrow> v)"
  shows "vocabulary (SpellCorrector_init lc alpha word_tokenize english_words text vocab n) = V"
    and "n_edit (SpellCorrector_init lc alpha word_tokenize english_words text vocab n) = n"
    and "string (SpellCorrector_init lc alpha word_tokenize english_words text vocab n) =
           map (lower lc) (word_tokenize text)"
    and "misspelled_words (SpellCorrector_init lc alpha word_tokenize english_words text vocab n) =
           map (final_entry lc V n)
             (filter (\<lambda>w. isalpha alpha w \<and> w \<notin> set V) (map (lower lc) (word_tokenize text)))"
  unfolding SpellCorrector_init_def V_def
  by (simp_all add: best_candidate_fields compute_probabilities_fields find_candidates_fields
      find_misspelled_fields final_entry_def new_entry_def Let_def comp_def)

lemma best_step_pair:
  "best_step (c, p) (bp, bc) = (if p > bp then (p, c) else (bp, bc))"
  by (simp add: best_step_def)

lemma best_step_fold:
  assumes "length cs = length ps"
    and "fold best_step (zip cs ps) (bp0, bc0) = (bp, bc)"
  shows "(bp = bp0 \<and> bc = bc0 \<and> (\<forall>l<length ps. ps ! l \<le> bp0)) \<or>
         (\<exists>k<length ps. bp = ps ! k \<and> bc = cs ! k \<and> bp0 < ps ! k \<and>
            (\<forall>l<length ps. ps ! l \<le> ps ! k) \<and> (\<forall>l<k. ps ! l < ps ! k))"
  using assms
proof (induction cs ps arbitrary: bp0 bc0 rule: list_induct2)
  case Nil
  then show ?case by simp
next
  case (Cons c cs p ps)
  show ?case
  proof (cases "p > bp0")
    case True
    then have f: "fold best_step (zip cs ps) (p, c) = (bp, bc)"
      using Cons.prems by (simp add: best_step_pair)
    from Cons.IH[OF f] show ?thesis
    proof (elim disjE exE conjE)
      assume a: "bp = p" "bc = c" "\<forall>l<length ps. ps ! l \<le> p"
      have "0 < length (p # ps)" "bp = (p # ps) ! 0" "bc = (c # cs) ! 0" "bp0 < (p # ps) ! 0"
        using a True by simp_all
      moreover have "\<forall>l<length (p # ps). (p # ps) ! l \<le> (p # ps) ! 0"
        using a(3) by (auto simp: nth_Cons')
      moreover have "\<forall>l<0::nat. (p # ps) ! l < (p # ps) ! 0" by simp
      ultimately show ?thesis by blast
    next
      fix k assume a: "k < length ps" "bp = ps ! k" "bc = cs ! k" "p < ps ! k"
        "\<forall>l<length ps. ps ! l \<le> ps ! k" "\<forall>l<k. ps ! l < ps ! k"
      have "Suc k < length (p # ps)" "bp = (p # ps) ! Suc k" "bc = (c # cs) ! Suc k"
        "bp0 < (p # ps) ! Suc k"
        using a True by simp_all
      moreover have "\<forall>l<length (p # ps). (p # ps) ! l \<le> (p # ps) ! Suc k"
        using a(4,5) by (auto simp: nth_Cons')
      moreover have "\<forall>l<Suc k. (p # ps) ! l < (p # ps) ! Suc k"
        using a(4,6) by (auto simp: nth_Cons' less_Suc_eq_0_disj)
      ultimately show ?thesis by blast
    qed
  next
    case False
    then have f: "fold best_step (zip cs ps) (bp0, bc0) = (bp, bc)"
      using Cons.prems by (simp add: best_step_pair)
    from Cons.IH[OF f] show ?thesis
    proof (elim disjE exE conjE)
      assume a: "bp = bp0" "bc = bc0" "\<forall>l<length ps. ps ! l \<le> bp0"
      have "\<forall>l<length (p # ps). (p # ps) ! l \<le> bp0"
        using a(3) False by (auto simp: nth_Cons')
      then show ?thesis using a by blast
    next
      fix k assume a: "k < length ps" "bp = ps ! k" "bc = cs ! k" "bp0 < ps ! k"
        "\<forall>l<length ps. ps ! l \<le> ps ! k" "\<forall>l<k. ps ! l < ps ! k"
      have "Suc k < length (p # ps)" "bp = (p # ps) ! Suc k" "bc = (c # cs) ! Suc k"
        "bp0 < (p # ps) ! Suc k"
        using a by simp_all
      moreover have "\<forall>l<length (p # ps). (p # ps) ! l \<le> (p # ps) ! Suc k"
        using a(4,5) False by (auto simp: nth_Cons')
      moreover have "\<forall>l<Suc k. (p # ps) ! l < (p # ps) ! Suc k"
        using a(4,6) False by (auto simp: nth_Cons' less_Suc_eq_0_disj)
      ultimately show ?thesis by blast
    qed
  qed
qed

lemma candidate_probability_nonneg: "0 \<le> candidate_probability f d"
proof -
  have "0 \<le> real f * (1 / (real (unat d) + 1))"
    by (intro mult_nonneg_nonneg divide_nonneg_nonneg add_nonneg_nonneg of_nat_0_le_iff
        zero_le_one)
  then show ?thesis unfolding candidate_probability_def by (rule real_sqrt_ge_zero)
qed

lemma final_entry_fields:
  "misspelled (final_entry lc V n t) = t"
  "candidates (final_entry lc V n t) = filter (within_edits lc n t) V"
  "probabilities (final_entry lc V n t) = map (scored lc V n t) (filter (within_edits lc n t) V)"
  "best_candidates (final_entry lc V n t) =
     Some (snd (fold best_step
       (zip (filter (within_edits lc n t) V) (map (scored lc V n t) (filter (within_edits lc n t) V)))
       (-1, [])))"
  by (simp_all add: final_entry_def Let_def)

lemma final_entry_best:
  fixes lc :: lower_table and V :: "str list" and n :: int and t :: str
  defines "e \<equiv> final_entry lc V n t"
  shows "length (probabilities e) = length (candidates e)"
    and "candidates e = [] \<Longrightarrow> best_candidates e = Some []"
    and "candidates e \<noteq> [] \<Longrightarrow>
           \<exists>k<length (candidates e). best_candidates e = Some (candidates e ! k) \<and>
             (\<forall>l<length (candidates e). probabilities e ! l \<le> probabilities e ! k) \<and>
             (\<forall>l<k. probabilities e ! l < probabilities e ! k)"
proof -
  let ?cs = "candidates e" and ?ps = "probabilities e"
  show len: "length ?ps = length ?cs" by (simp add: e_def final_entry_fields)
  have b: "best_candidates e = Some (snd (fold best_step (zip ?cs ?ps) (-1, [])))"
    by (simp add: e_def final_entry_fields)
  show "candidates e = [] \<Longrightarrow> best_candidates e = Some []"
    using b by simp
  assume ne: "candidates e \<noteq> []"
  obtain bp bc where f: "fold best_step (zip ?cs ?ps) (-1, []) = (bp, bc)"
    by (cases "fold best_step (zip ?cs ?ps) (-1, [])") blast
  have pos: "0 \<le> ?ps ! 0"
    using ne by (cases "filter (within_edits lc n t) V")
      (simp_all add: e_def final_entry_fields scored_def candidate_probability_nonneg)
  have "0 < length ?ps" using ne len by simp
  then have "\<not> (\<forall>l<length ?ps. ?ps ! l \<le> -1)" using pos by force
  with best_step_fold[OF len[symmetric] f]
  obtain k where "k < length ?ps" "bc = ?cs ! k" "\<forall>l<length ?ps. ?ps ! l \<le> ?ps ! k"
    "\<forall>l<k. ?ps ! l < ?ps ! k" by blast
  then show "\<exists>k<length ?cs. best_candidates e = Some (?cs ! k) \<and>
             (\<forall>l<length ?cs. ?ps ! l \<le> ?ps ! k) \<and> (\<forall>l<k. ?ps ! l < ?ps ! k)"
    using b f len by auto
qed

lemma probability_order: "candidate_probability 1 2 < candidate_probability 1 1"
  by (simp add: candidate_probability_def)


section \<open>The operation history\<close>

text \<open>
  The records of \<open>operations_history\<close>, applied in the returned order to the
  lower-cased source, turn its first \<open>M\<close> characters into the first \<open>N\<close> characters
  of the lower-cased target and keep the rest of the source, where \<open>M\<close> and \<open>N\<close> are
  the lengths of the strings as they were given.
\<close>

lemma operations_history_applied:
  "\<exists>ops. operations_history (levenshtein_init lc src tgt rc ic dc) = Inr ops \<and>
         apply_operations ops (lower lc src) =
           Some (take (length tgt) (lower lc tgt) @ drop (length src) (lower lc src))"
proof -
  obtain ops where ops: "operations_history (levenshtein_init lc src tgt rc ic dc) = Inr ops"
    "walk_ok (lower lc src) (lower lc tgt) (length src) (length tgt) (rev ops)"
    using operations_history_built by blast
  have "apply_records ops ([], lower lc src) =
          Some (take (length tgt) (lower lc tgt), drop (length src) (lower lc src))"
    using ops(2) by (simp add: walk_ok_def)
  then show ?thesis using ops(1) by (simp add: apply_operations_def)
qed

text \<open>
  C5. The claim: applying the returned records to the lower-cased source gives exactly
  the lower-cased target. The constructor takes \<open>M = len(source)\<close> and
  \<open>N = len(target)\<close> before it lower-cases the strings. For the source U+0130, whose
  lower case is the two code points U+0069 U+0307, and the target \<open>i\<close>, \<open>M\<close> is 1: the
  history is the single \<open>no_edit\<close> record of the first character, and applying it to
  the lower-cased source leaves U+0069 U+0307, not \<open>i\<close>.
\<close>

theorem round_trip_fails_when_lower_case_is_longer:
  "lower latin_lower_ucs4 [304] = [105, 775] \<and>
   lower latin_lower_ucs4 [105] = [105] \<and>
   operations_history (levenshtein_init latin_lower_ucs4 [304] [105] 1 1 1) =
     Inr [\<lparr>operation = ''no_edit'', char_index = 1,
           source_char = Some (1, 105), target_char = Some (1, 105)\<rparr>] \<and>
   apply_operations
     [\<lparr>operation = ''no_edit'', char_index = 1,
       source_char = Some (1, 105), target_char = Some (1, 105)\<rparr>]
     (lower latin_lower_ucs4 [304]) = Some [105, 775]"
  by code_simp

text \<open>
  C8. For every constructed engine the backtrace walk from \<open>(M, N)\<close> leaves its loop,
  which it does only at \<open>(0, 0)\<close>, and returns a list of at most \<open>M + N\<close> records. The
  list is in forward order: the records that read a source character name the positions
  \<open>1, 2, .., M\<close> in this order, each with the character at that position, and the
  records that write a target character name \<open>1, 2, .., N\<close> likewise. The list is a
  function of the engine alone (the method reads the engine and builds a fresh list), so
  a second call returns the same list.
\<close>

theorem operations_history_terminates_forward:
  "\<exists>ops. operations_history (levenshtein_init lc src tgt rc ic dc) = Inr ops \<and>
         length ops \<le> length src + length tgt \<and>
         List.map_filter source_char ops = map (\<lambda>k. (Suc k, lower lc src ! k)) [0..<length src] \<and>
         List.map_filter target_char ops = map (\<lambda>k. (Suc k, lower lc tgt ! k)) [0..<length tgt]"
proof -
  obtain ops where ops: "operations_history (levenshtein_init lc src tgt rc ic dc) = Inr ops"
    "walk_ok (lower lc src) (lower lc tgt) (length src) (length tgt) (rev ops)"
    using operations_history_built by blast
  show ?thesis using ops by (simp add: walk_ok_def)
qed

text \<open>
  C9. For every string \<open>s\<close> and every cost triple (zero and negative costs too),
  the edit distance from \<open>s\<close> to \<open>s\<close> is 0, and the operation history is one
  \<open>no_edit\<close> record per character and nothing else: equal characters copy the
  diagonal neighbour and never add a cost.
\<close>

theorem identical_strings_distance_zero:
  "get_edit_distance (levenshtein_init lc s s rc ic dc) = 0 \<and>
   (\<exists>ops. operations_history (levenshtein_init lc s s rc ic dc) = Inr ops \<and>
          length ops = length s \<and> list_all (\<lambda>r. operation r = ''no_edit'') ops)"
proof -
  let ?L = "levenshtein_init lc s s rc ic dc"
  have d: "get_edit_distance ?L = 0"
    by (simp add: get_edit_distance_def levenshtein_init_params levenshtein_init_cells
        cell_value_diag)
  have "\<exists>ops. operations_loop ?L (length s) (length s) [] = Inr ([] @ ops) \<and> length ops = length s \<and>
               list_all (\<lambda>r. operation r = ''no_edit'') ops"
    by (rule operations_loop_diag) (simp add: levenshtein_init_cells)
  then obtain ops where ops: "operations_loop ?L (length s) (length s) [] = Inr ops"
    "length ops = length s" "list_all (\<lambda>r. operation r = ''no_edit'') ops" by auto
  have "operations_history ?L = Inr (rev ops)"
    by (simp add: operations_history_def levenshtein_init_params ops(1))
  moreover have "length (rev ops) = length s" "list_all (\<lambda>r. operation r = ''no_edit'') (rev ops)"
    using ops(2,3) by (simp_all add: list_all_iff)
  ultimately show ?thesis using d by blast
qed

section \<open>The cells of the distance matrix\<close>

text \<open>
  C4, as amended. For every pair of strings and every cost triple, at an interior cell \<open>(i, j)\<close>
  whose characters differ, let \<open>minimum\<close> be the least of the three neighbour values
  \<open>D[i][j-1]\<close>, \<open>D[i-1][j]\<close>, \<open>D[i-1][j-1]\<close>, no cost added. If \<open>minimum\<close> is
  \<open>D[i][j-1]\<close> the cell is \<open>minimum + insert_cost\<close>, tagged INSERT; otherwise, if it is
  \<open>D[i-1][j]\<close> the cell is \<open>minimum + delete_cost\<close>, tagged DELETE; otherwise the cell
  is \<open>minimum + replace_cost\<close>, tagged REPLACE. So on a tie Insert wins over Delete and
  Delete over Replace. Every sum is the one the \<open>uint8\<close> cell stores: the sum of
  the integers modulo 256.
\<close>

theorem mismatch_cell_priority:
  fixes lc :: lower_table and src tgt :: str and rc ic dc :: int and i j :: nat
  defines "L \<equiv> levenshtein_init lc src tgt rc ic dc"
  defines "D \<equiv> distance_matrix L" and "B \<equiv> backtrace_matrix L"
  defines "minimum \<equiv> min (D ! i ! (j - 1)) (min (D ! (i - 1) ! j) (D ! (i - 1) ! (j - 1)))"
  assumes "1 \<le> i" "i \<le> length src" "1 \<le> j" "j \<le> length tgt"
    and "source L ! (i - 1) \<noteq> target L ! (j - 1)"
  shows "(minimum = D ! i ! (j - 1) \<longrightarrow>
            D ! i ! j = minimum + word_of_int ic \<and> B ! i ! j = INSERT \<and>
            uint (D ! i ! j) = (uint minimum + ic) mod 256) \<and>
         (minimum \<noteq> D ! i ! (j - 1) \<and> minimum = D ! (i - 1) ! j \<longrightarrow>
            D ! i ! j = minimum + word_of_int dc \<and> B ! i ! j = DELETE \<and>
            uint (D ! i ! j) = (uint minimum + dc) mod 256) \<and>
         (minimum \<noteq> D ! i ! (j - 1) \<and> minimum \<noteq> D ! (i - 1) ! j \<longrightarrow>
            D ! i ! j = minimum + word_of_int rc \<and> B ! i ! j = REPLACE \<and>
            uint (D ! i ! j) = (uint minimum + rc) mod 256)"
proof -
  obtain i0 j0 where ij: "i = Suc i0" "j = Suc j0"
    using assms(5,7) by (metis One_nat_def Suc_le_D)
  have le: "i0 \<le> length src" "j0 \<le> length tgt" "Suc i0 \<le> length src" "Suc j0 \<le> length tgt"
    using assms(6,8) ij by simp_all
  have ne: "lower lc src ! i0 \<noteq> lower lc tgt ! j0"
    using assms(9) unfolding L_def levenshtein_init_params ij by simp
  define a where "a = cell_value (lower lc src) (lower lc tgt) rc ic dc (Suc i0) j0"
  define b where "b = cell_value (lower lc src) (lower lc tgt) rc ic dc i0 (Suc j0)"
  define c where "c = cell_value (lower lc src) (lower lc tgt) rc ic dc i0 j0"
  have nb: "D ! i ! (j - 1) = a" "D ! (i - 1) ! j = b" "D ! (i - 1) ! (j - 1) = c"
    unfolding D_def L_def ij a_def b_def c_def using le
    by (simp_all add: levenshtein_init_cells del: cell_value.simps)
  have V: "D ! i ! j =
             (if min a (min b c) = a then min a (min b c) + word_of_int ic
              else if min a (min b c) = b then min a (min b c) + word_of_int dc
              else min a (min b c) + word_of_int rc)"
    unfolding D_def L_def ij levenshtein_init_cells(1)[OF le(3,4)] a_def b_def c_def
    using ne by (simp only: cell_value.simps if_False Let_def)
  have T: "B ! i ! j =
             (if min a (min b c) = a then INSERT
              else if min a (min b c) = b then DELETE else REPLACE)"
    unfolding B_def L_def ij levenshtein_init_cells(2)[OF le(3,4)] a_def b_def c_def
    using ne by (simp only: cell_tag.simps if_False Let_def)
  show ?thesis
    unfolding minimum_def nb V T by (simp add: uint_plus_cost)
qed

text \<open>
  At the cell \<open>(1, 2)\<close> of \<open>"a"\<close> against \<open>"bc"\<close> the left and the diagonal neighbour
  tie at 1 and Insert is taken; at the cell \<open>(2, 1)\<close> of \<open>"bc"\<close> against \<open>"a"\<close> the
  upper and the diagonal neighbour tie at 1 below the left one and Delete is taken.
\<close>

theorem mismatch_cell_priority_witness:
  "distance_matrix (levenshtein_init latin_lower_ucs4 (py_str ''a'') (py_str ''bc'') 1 1 1) ! 1 ! 1 = 1 \<and>
   distance_matrix (levenshtein_init latin_lower_ucs4 (py_str ''a'') (py_str ''bc'') 1 1 1) ! 0 ! 2 = 2 \<and>
   distance_matrix (levenshtein_init latin_lower_ucs4 (py_str ''a'') (py_str ''bc'') 1 1 1) ! 0 ! 1 = 1 \<and>
   distance_matrix (levenshtein_init latin_lower_ucs4 (py_str ''a'') (py_str ''bc'') 1 1 1) ! 1 ! 2 = 2 \<and>
   backtrace_matrix (levenshtein_init latin_lower_ucs4 (py_str ''a'') (py_str ''bc'') 1 1 1) ! 1 ! 2 = INSERT \<and>
   distance_matrix (levenshtein_init latin_lower_ucs4 (py_str ''bc'') (py_str ''a'') 1 1 1) ! 2 ! 0 = 2 \<and>
   distance_matrix (levenshtein_init latin_lower_ucs4 (py_str ''bc'') (py_str ''a'') 1 1 1) ! 1 ! 1 = 1 \<and>
   distance_matrix (levenshtein_init latin_lower_ucs4 (py_str ''bc'') (py_str ''a'') 1 1 1) ! 1 ! 0 = 1 \<and>
   distance_matrix (levenshtein_init latin_lower_ucs4 (py_str ''bc'') (py_str ''a'') 1 1 1) ! 2 ! 1 = 2 \<and>
   backtrace_matrix (levenshtein_init latin_lower_ucs4 (py_str ''bc'') (py_str ''a'') 1 1 1) ! 2 ! 1 = DELETE"
proof -
  let ?L = "levenshtein_init latin_lower_ucs4 (py_str ''a'') (py_str ''bc'') 1 1 1"
  let ?K = "levenshtein_init latin_lower_ucs4 (py_str ''bc'') (py_str ''a'') 1 1 1"
  have l: "distance_matrix ?L ! 1 ! 1 = 1" "distance_matrix ?L ! 0 ! 2 = 2"
    "distance_matrix ?L ! 0 ! 1 = 1"
    by code_simp+
  have k: "distance_matrix ?K ! 2 ! 0 = 2" "distance_matrix ?K ! 1 ! 1 = 1"
    "distance_matrix ?K ! 1 ! 0 = 1"
    by code_simp+
  have len: "length (py_str ''a'') = 1" "length (py_str ''bc'') = 2"
    by (simp_all add: py_str_def)
  have hl: "source ?L ! (1 - 1) \<noteq> target ?L ! (2 - 1)" by code_simp
  have hk: "source ?K ! (2 - 1) \<noteq> target ?K ! (1 - 1)" by code_simp
  have "distance_matrix ?L ! 1 ! 2 = 2 \<and> backtrace_matrix ?L ! 1 ! 2 = INSERT"
    using mismatch_cell_priority[where i=1 and j=2 and src="py_str ''a''" and tgt="py_str ''bc''"
        and lc=latin_lower_ucs4 and rc=1 and ic=1 and dc=1, OF _ _ _ _ hl] l len by simp
  moreover have "distance_matrix ?K ! 2 ! 1 = 2 \<and> backtrace_matrix ?K ! 2 ! 1 = DELETE"
    using mismatch_cell_priority[where i=2 and j=1 and src="py_str ''bc''" and tgt="py_str ''a''"
        and lc=latin_lower_ucs4 and rc=1 and ic=1 and dc=1, OF _ _ _ _ hk] k len by simp
  ultimately show ?thesis using l k by simp
qed

text \<open>
  C4 as stated, with the sum of the integers, fails where the sum passes 255: for
  \<open>"a"\<close> against \<open>"cd"\<close> with \<open>replace_cost = 255\<close> the neighbours of the cell
  \<open>(1, 2)\<close> are 255, 2 and 1, the least is the diagonal one, the tag is REPLACE, and
  the cell holds 0, not \<open>1 + 255\<close>.
\<close>

theorem mismatch_cell_sum_wraps:
  "source (levenshtein_init latin_lower_ucs4 (py_str ''a'') (py_str ''cd'') 255 1 1) ! (1 - 1) \<noteq>
     target (levenshtein_init latin_lower_ucs4 (py_str ''a'') (py_str ''cd'') 255 1 1) ! (2 - 1) \<and>
   uint (distance_matrix (levenshtein_init latin_lower_ucs4 (py_str ''a'') (py_str ''cd'') 255 1 1)
           ! 1 ! 1) = 255 \<and>
   uint (distance_matrix (levenshtein_init latin_lower_ucs4 (py_str ''a'') (py_str ''cd'') 255 1 1)
           ! 0 ! 2) = 2 \<and>
   uint (distance_matrix (levenshtein_init latin_lower_ucs4 (py_str ''a'') (py_str ''cd'') 255 1 1)
           ! 0 ! 1) = 1 \<and>
   backtrace_matrix (levenshtein_init latin_lower_ucs4 (py_str ''a'') (py_str ''cd'') 255 1 1)
           ! 1 ! 2 = REPLACE \<and>
   uint (distance_matrix (levenshtein_init latin_lower_ucs4 (py_str ''a'') (py_str ''cd'') 255 1 1)
           ! 1 ! 2) = 0 \<and>
   uint (distance_matrix (levenshtein_init latin_lower_ucs4 (py_str ''a'') (py_str ''cd'') 255 1 1)
           ! 1 ! 2) \<noteq> 1 + 255"
  by code_simp

text \<open>
  C2. The claim: \<open>D[i][0] = i * deleteCost\<close> and \<open>D[0][j] = j * insertCost\<close>, so the
  distance from \<open>s\<close> to the empty string is \<open>len(s) * deleteCost\<close> and from the empty
  string to \<open>t\<close> is \<open>len(t) * insertCost\<close>. The two initialisation loops store \<open>i\<close>
  and \<open>j\<close>, whatever the costs: with \<open>delete_cost = 2\<close> the distance from \<open>"a"\<close> to
  the empty string is 1, not 2, and with \<open>insert_cost = 2\<close> the distance from the empty
  string to \<open>"a"\<close> is 1, not 2.
\<close>

theorem border_cells_ignore_costs:
  "distance_matrix (levenshtein_init latin_lower_ucs4 (py_str ''a'') [] 1 1 2) ! 1 ! 0 = 1 \<and>
   get_edit_distance (levenshtein_init latin_lower_ucs4 (py_str ''a'') [] 1 1 2) = 1 \<and>
   distance_matrix (levenshtein_init latin_lower_ucs4 [] (py_str ''a'') 1 2 1) ! 0 ! 1 = 1 \<and>
   get_edit_distance (levenshtein_init latin_lower_ucs4 [] (py_str ''a'') 1 2 1) = 1"
  by code_simp

text \<open>
  C3. The claim: at a cell whose characters differ, \<open>D[i][j]\<close> is the least of
  \<open>D[i][j-1] + insertCost\<close>, \<open>D[i-1][j] + deleteCost\<close>,
  \<open>D[i-1][j-1] + replaceCost\<close>. The loop takes the least neighbour first and adds a cost
  afterwards: for \<open>"a"\<close> against \<open>"b"\<close> with \<open>replace_cost = 3\<close> and unit insert and
  delete costs the cell \<open>(1, 1)\<close>, and the distance returned, is 3, while the least of
  the three sums is 2 (one deletion and one insertion).
\<close>

theorem mismatch_cell_above_least_sum:
  "distance_matrix (levenshtein_init latin_lower_ucs4 (py_str ''a'') (py_str ''b'') 3 1 1) ! 1 ! 1 = 3 \<and>
   min (distance_matrix (levenshtein_init latin_lower_ucs4 (py_str ''a'') (py_str ''b'') 3 1 1) ! 1 ! 0
          + word_of_int 1)
     (min (distance_matrix (levenshtein_init latin_lower_ucs4 (py_str ''a'') (py_str ''b'') 3 1 1) ! 0 ! 1
             + word_of_int 1)
          (distance_matrix (levenshtein_init latin_lower_ucs4 (py_str ''a'') (py_str ''b'') 3 1 1) ! 0 ! 0
             + word_of_int 3)) = 2 \<and>
   get_edit_distance (levenshtein_init latin_lower_ucs4 (py_str ''a'') (py_str ''b'') 3 1 1) = 3"
  by code_simp

text \<open>
  C7. The claim: every cell, and the value \<open>get_edit_distance\<close> returns, is the value
  of the algorithm of section 4.1 computed on integers and reduced modulo 256 after each
  arithmetic step. The cells are 8-bit and every sum is reduced modulo 256, but the
  border is not the one of section 4.1: it holds \<open>i\<close> and \<open>j\<close>, not
  \<open>i * deleteCost\<close> and \<open>j * insertCost\<close> (the initialisation loops of C2). For
  \<open>"a"\<close> against the empty string with \<open>delete_cost = 2\<close> the cell \<open>(1, 0)\<close>, which is
  the distance returned, holds 1, and section 4.1 gives 2.
\<close>

theorem cells_differ_from_spec_on_border:
  "uint (distance_matrix (levenshtein_init latin_lower_ucs4 (py_str ''a'') [] 1 1 2) ! 1 ! 0) = 1 \<and>
   uint (get_edit_distance (levenshtein_init latin_lower_ucs4 (py_str ''a'') [] 1 1 2)) = 1 \<and>
   spec_distance (\<lambda>x. x mod 256) (lower latin_lower_ucs4 (py_str ''a'')) (lower latin_lower_ucs4 [])
     1 2 1 1 0 = 2"
  by code_simp

text \<open>
  Where the border agrees with section 4.1, that is, with unit insert and delete costs,
  the cells are the values of section 4.1 modulo 256, for any replace cost.
\<close>

lemma cells_are_spec_modulo_256:
  assumes "i \<le> length src" "j \<le> length tgt"
  shows "uint (distance_matrix (levenshtein_init lc src tgt rc 1 1) ! i ! j) =
           spec_distance (\<lambda>x. x mod 256) (lower lc src) (lower lc tgt) 1 1 rc i j"
  using assms
  by (simp add: levenshtein_init_cells cell_value_refines
      del: cell_value.simps spec_distance.simps)

text \<open>
  A distance that wraps: \<open>"a"\<close> against \<open>"cd"\<close> with \<open>replace_cost = 255\<close> is 256 on
  unbounded integers, and the engine returns 0.
\<close>

lemma wrapped_distance:
  "get_edit_distance (levenshtein_init latin_lower_ucs4 (py_str ''a'') (py_str ''cd'') 255 1 1) = 0 \<and>
   spec_distance (\<lambda>x. x mod 256) (lower latin_lower_ucs4 (py_str ''a''))
     (lower latin_lower_ucs4 (py_str ''cd'')) 1 1 255 1 2 = 0 \<and>
   spec_distance (\<lambda>x. x) (lower latin_lower_ucs4 (py_str ''a''))
     (lower latin_lower_ucs4 (py_str ''cd'')) 1 1 255 1 2 = 256"
  by code_simp

section \<open>The corrector\<close>

text \<open>
  C6. Candidate generation gives one entry per flagged token (alphabetic and not in
  the vocabulary), in the order of the tokens, and the candidates of the entry of a
  token \<open>t\<close> are exactly the vocabulary words \<open>w\<close>, in vocabulary order and as often
  as they occur there, whose engine distance from \<open>t\<close> with \<open>replace_cost = 2\<close> and
  unit insert and delete costs is at most \<open>n_edit\<close>. The later passes keep the
  candidates, so this holds of the constructed corrector.
\<close>

theorem candidates_within_edits:
  fixes lc :: lower_table and alpha :: "codepoint \<Rightarrow> bool"
    and word_tokenize :: "str \<Rightarrow> str list" and english_words :: "str list"
    and input :: str and vocab :: "str list option" and n :: int
  defines "C \<equiv> SpellCorrector_init lc alpha word_tokenize english_words input vocab n"
  shows "map (\<lambda>e. (misspelled e, candidates e)) (misspelled_words C) =
         map (\<lambda>t. (t, filter (\<lambda>w. uint (get_edit_distance (levenshtein_init lc t w 2 1 1)) \<le> n_edit C)
                          (vocabulary C)))
           (filter (\<lambda>t. isalpha alpha t \<and> t \<notin> set (vocabulary C)) (string C))"
  unfolding C_def SpellCorrector_init_fields
  by (simp add: comp_def final_entry_fields within_edits_def[abs_def])

text \<open>
  An instance: the token \<open>Abc\<close> is lower-cased and flagged, \<open>ab\<close> is in the
  vocabulary and \<open>42\<close> is not alphabetic; the vocabulary word \<open>ab\<close> occurs twice and
  is a candidate twice, \<open>xyzzy\<close> is too far.
\<close>

theorem candidates_within_edits_witness:
  "map (\<lambda>e. (misspelled e, candidates e))
     (misspelled_words (SpellCorrector_init latin_lower_ucs4 latin_alpha
        (\<lambda>_. [py_str ''Abc'', py_str ''ab'', py_str ''42'']) [] (py_str ''Abc ab 42'')
        (Some [py_str ''a'', py_str ''ab'', py_str ''xyzzy'', py_str ''ab'']) 2)) =
   [(py_str ''abc'', [py_str ''a'', py_str ''ab'', py_str ''ab''])]"
proof -
  let ?V = "[py_str ''a'', py_str ''ab'', py_str ''xyzzy'', py_str ''ab'']"
  let ?T = "\<lambda>_::str. [py_str ''Abc'', py_str ''ab'', py_str ''42'']"
  let ?C = "SpellCorrector_init latin_lower_ucs4 latin_alpha ?T [] (py_str ''Abc ab 42'') (Some ?V) 2"
  have t: "filter (\<lambda>t. isalpha latin_alpha t \<and> t \<notin> set ?V)
             (map (lower latin_lower_ucs4) [py_str ''Abc'', py_str ''ab'', py_str ''42'']) =
           [py_str ''abc'']"
    by code_simp
  have c: "filter (\<lambda>w. uint (get_edit_distance
                               (levenshtein_init latin_lower_ucs4 (py_str ''abc'') w 2 1 1)) \<le> 2) ?V =
           [py_str ''a'', py_str ''ab'', py_str ''ab'']"
    by code_simp
  have s: "string ?C = map (lower latin_lower_ucs4) [py_str ''Abc'', py_str ''ab'', py_str ''42'']"
    "vocabulary ?C = ?V" "n_edit ?C = 2"
    by (simp_all add: SpellCorrector_init_fields)
  show ?thesis
    unfolding candidates_within_edits[where lc=latin_lower_ucs4 and alpha=latin_alpha
        and word_tokenize="?T" and english_words="[]" and input="py_str ''Abc ab 42''"
        and vocab="Some ?V" and n=2] s t
    by (simp only: list.map c)
qed

text \<open>
  C10, as amended. After construction, for every entry of \<open>misspelled_words\<close>: there
  is one probability per candidate; if the candidates list is empty,
  \<open>best_candidates\<close> is the empty string; otherwise \<open>best_candidates\<close> is the
  candidate at the earliest position whose probability is maximal; and when the
  vocabulary does not contain the empty string, \<open>best_candidates\<close> is the empty string
  if and only if the candidates list is empty.
\<close>

theorem best_candidate_earliest_maximum:
  fixes lc :: lower_table and alpha :: "codepoint \<Rightarrow> bool"
    and word_tokenize :: "str \<Rightarrow> str list" and english_words :: "str list"
    and input :: str and vocab :: "str list option" and n :: int
  assumes "e \<in> set (misspelled_words
             (SpellCorrector_init lc alpha word_tokenize english_words input vocab n))"
  shows "length (probabilities e) = length (candidates e) \<and>
         (candidates e = [] \<longrightarrow> best_candidates e = Some []) \<and>
         (candidates e \<noteq> [] \<longrightarrow>
            (\<exists>k<length (candidates e). best_candidates e = Some (candidates e ! k) \<and>
               (\<forall>l<length (candidates e). probabilities e ! l \<le> probabilities e ! k) \<and>
               (\<forall>l<k. probabilities e ! l < probabilities e ! k))) \<and>
         ([] \<notin> set (vocabulary
                      (SpellCorrector_init lc alpha word_tokenize english_words input vocab n)) \<longrightarrow>
            (best_candidates e = Some [] \<longleftrightarrow> candidates e = []))"
proof -
  let ?V = "vocabulary (SpellCorrector_init lc alpha word_tokenize english_words input vocab n)"
  obtain t where e: "e = final_entry lc ?V n t"
    using assms unfolding SpellCorrector_init_fields by auto
  note b = final_entry_best[of lc ?V n t, folded e]
  have sub: "set (candidates e) \<subseteq> set ?V"
    unfolding e by (simp add: final_entry_fields)
  have "best_candidates e = Some [] \<longleftrightarrow> candidates e = []" if v: "[] \<notin> set ?V"
  proof
    assume s: "best_candidates e = Some []"
    show "candidates e = []"
    proof (rule ccontr)
      assume "candidates e \<noteq> []"
      from b(3)[OF this] obtain k where "k < length (candidates e)"
        "best_candidates e = Some (candidates e ! k)" by blast
      then have "[] \<in> set (candidates e)" using s by (metis nth_mem option.inject)
      then show False using sub v by blast
    qed
  next
    assume "candidates e = []"
    then show "best_candidates e = Some []" by (rule b(2))
  qed
  then show ?thesis using b by blast
qed

text \<open>
  An instance with two candidates: \<open>ab\<close> is at distance 1 and \<open>a\<close> at distance 2
  from \<open>abc\<close>, so the second candidate has the greater probability and is chosen.
\<close>

theorem best_candidate_earliest_maximum_witness:
  "map (\<lambda>e. (misspelled e, candidates e, best_candidates e))
     (misspelled_words (SpellCorrector_init latin_lower_ucs4 latin_alpha (\<lambda>_. [py_str ''abc''])
        [] (py_str ''abc'') (Some [py_str ''a'', py_str ''ab'']) 2)) =
   [(py_str ''abc'', [py_str ''a'', py_str ''ab''], Some (py_str ''ab''))]"
proof -
  let ?V = "[py_str ''a'', py_str ''ab'']"
  let ?C = "SpellCorrector_init latin_lower_ucs4 latin_alpha (\<lambda>_. [py_str ''abc''])
              [] (py_str ''abc'') (Some ?V) 2"
  let ?e = "final_entry latin_lower_ucs4 ?V 2 (py_str ''abc'')"
  have t: "filter (\<lambda>w. isalpha latin_alpha w \<and> w \<notin> set ?V)
             (map (lower latin_lower_ucs4) [py_str ''abc'']) = [py_str ''abc'']"
    by code_simp
  have w: "filter (within_edits latin_lower_ucs4 2 (py_str ''abc'')) ?V = ?V" by code_simp
  have we: "within_edits latin_lower_ucs4 2 (py_str ''abc'') (py_str ''a'')"
    "within_edits latin_lower_ucs4 2 (py_str ''abc'') (py_str ''ab'')" by code_simp+
  have d: "get_edit_distance (levenshtein_init latin_lower_ucs4 (py_str ''abc'') (py_str ''a'') 2 1 1) = 2"
    "get_edit_distance (levenshtein_init latin_lower_ucs4 (py_str ''abc'') (py_str ''ab'') 2 1 1) = 1"
    by code_simp+
  have ne: "py_str ''a'' \<noteq> py_str ''ab''" by code_simp
  have m: "misspelled_words ?C = [?e]"
    unfolding SpellCorrector_init_fields option.case t by simp
  have cs: "candidates ?e = ?V" by (simp only: final_entry_fields w)
  have ps: "probabilities ?e = [candidate_probability 1 2, candidate_probability 1 1]"
    using ne by (simp add: final_entry_fields we scored_def d)
  have "?e \<in> set (misspelled_words ?C)" unfolding m by simp
  note c10 = best_candidate_earliest_maximum[OF this, unfolded cs]
  have nonempty: "?V \<noteq> []" by simp
  from c10 nonempty obtain k where k: "k < length ?V" "best_candidates ?e = Some (?V ! k)"
    "\<forall>l<length ?V. probabilities ?e ! l \<le> probabilities ?e ! k"
    by blast
  have "k \<noteq> 0"
  proof
    assume "k = 0"
    then have "candidate_probability 1 1 \<le> candidate_probability 1 2"
      using k(3)[rule_format, of 1] unfolding ps by simp
    then show False using probability_order by simp
  qed
  then have "k = 1" using k(1) by simp
  then have "best_candidates ?e = Some (py_str ''ab'')" using k(2) by simp
  then show ?thesis unfolding m using cs by (simp add: final_entry_fields(1))
qed

text \<open>
  C10 as stated fails when the empty string is a vocabulary word: it is at distance 1
  from the token \<open>a\<close>, so it is the only candidate and the best one, and
  \<open>best_candidates\<close> is the empty string although the candidates list is not empty.
\<close>

theorem best_candidate_of_empty_word:
  "map (\<lambda>e. (misspelled e, candidates e, best_candidates e))
     (misspelled_words (SpellCorrector_init latin_lower_ucs4 latin_alpha (\<lambda>_. [py_str ''a''])
        [] (py_str ''a'') (Some [[]]) 2)) =
   [(py_str ''a'', [[]], Some [])]"
proof -
  let ?V = "[[]] :: str list"
  have t: "filter (\<lambda>w. isalpha latin_alpha w \<and> w \<notin> set ?V)
             (map (lower latin_lower_ucs4) [py_str ''a'']) = [py_str ''a'']"
    by code_simp
  have w: "within_edits latin_lower_ucs4 2 (py_str ''a'') []" by code_simp
  have m: "misspelled_words (SpellCorrector_init latin_lower_ucs4 latin_alpha (\<lambda>_. [py_str ''a''])
             [] (py_str ''a'') (Some ?V) 2) =
           [final_entry latin_lower_ucs4 ?V 2 (py_str ''a'')]"
    unfolding SpellCorrector_init_fields option.case t by simp
  show ?thesis
    unfolding m by (simp add: final_entry_fields w best_step_pair)
qed

text \<open>
  C1. The claim: a flagged token with no candidate is left unchanged in the corrected
  text. \<open>__best_candidate__\<close> leaves the empty string as the best candidate of such a
  token and \<open>retrive_corrected\<close> replaces the token by it: nothing is raised, and the
  token is removed from the text. With the vocabulary \<open>["world"]\<close> the text
  \<open>helo world\<close> becomes \<open>" world"\<close>, and with the empty vocabulary the text \<open>xyz\<close>
  becomes the empty string.
\<close>

theorem token_without_candidates_is_removed:
  "retrive_corrected (SpellCorrector_init latin_lower_ucs4 latin_alpha
      (\<lambda>_. [py_str ''helo'', py_str ''world'']) [] (py_str ''helo world'')
      (Some [py_str ''world'']) 2) = Inr (py_str '' world'') \<and>
   retrive_corrected (SpellCorrector_init latin_lower_ucs4 latin_alpha
      (\<lambda>_. [py_str ''xyz'']) [] (py_str ''xyz'') (Some []) 2) = Inr []"
proof -
  let ?C1 = "SpellCorrector_init latin_lower_ucs4 latin_alpha
      (\<lambda>_. [py_str ''helo'', py_str ''world'']) [] (py_str ''helo world'')
      (Some [py_str ''world'']) 2"
  let ?C2 = "SpellCorrector_init latin_lower_ucs4 latin_alpha
      (\<lambda>_. [py_str ''xyz'']) [] (py_str ''xyz'') (Some []) 2"
  have t1: "filter (\<lambda>w. isalpha latin_alpha w \<and> w \<notin> set [py_str ''world''])
              (map (lower latin_lower_ucs4) [py_str ''helo'', py_str ''world'']) = [py_str ''helo'']"
    by code_simp
  have l1: "map (lower latin_lower_ucs4) [py_str ''helo'', py_str ''world''] =
            [py_str ''helo'', py_str ''world'']" by code_simp
  have w1: "\<not> within_edits latin_lower_ucs4 2 (py_str ''helo'') (py_str ''world'')" by code_simp
  have r1: "replace (join (py_str '' '') [py_str ''helo'', py_str ''world'']) (py_str ''helo'') [] =
            py_str '' world''" by code_simp
  have t2: "filter (\<lambda>w. isalpha latin_alpha w \<and> w \<notin> set [])
              (map (lower latin_lower_ucs4) [py_str ''xyz'']) = [py_str ''xyz'']"
    by code_simp
  have l2: "map (lower latin_lower_ucs4) [py_str ''xyz''] = [py_str ''xyz'']" by code_simp
  have r2: "replace (join (py_str '' '') [py_str ''xyz'']) (py_str ''xyz'') [] = []" by code_simp
  have m1: "misspelled_words ?C1 = [final_entry latin_lower_ucs4 [py_str ''world''] 2 (py_str ''helo'')]"
    unfolding SpellCorrector_init_fields option.case t1 by simp
  have s1: "string ?C1 = [py_str ''helo'', py_str ''world'']"
    unfolding SpellCorrector_init_fields l1 by (rule refl)
  have m2: "misspelled_words ?C2 = [final_entry latin_lower_ucs4 [] 2 (py_str ''xyz'')]"
    unfolding SpellCorrector_init_fields option.case t2 by simp
  have s2: "string ?C2 = [py_str ''xyz'']"
    unfolding SpellCorrector_init_fields l2 by (rule refl)
  have b1: "best_candidates (final_entry latin_lower_ucs4 [py_str ''world''] 2 (py_str ''helo'')) = Some []"
    "misspelled (final_entry latin_lower_ucs4 [py_str ''world''] 2 (py_str ''helo'')) = py_str ''helo''"
    by (simp_all add: final_entry_fields w1)
  have b2: "best_candidates (final_entry latin_lower_ucs4 [] 2 (py_str ''xyz'')) = Some []"
    "misspelled (final_entry latin_lower_ucs4 [] 2 (py_str ''xyz'')) = py_str ''xyz''"
    by (simp_all add: final_entry_fields)
  have "retrive_corrected ?C1 = Inr (py_str '' world'')"
    unfolding retrive_corrected_def m1 s1 by (simp only: replace_all.simps b1 option.case r1)
  moreover have "retrive_corrected ?C2 = Inr []"
    unfolding retrive_corrected_def m2 s2 by (simp only: replace_all.simps b2 option.case r2)
  ultimately show ?thesis by (rule conjI)
qed

end
